theory Spec2Isabelle
  imports Complex_Main "HOL-Library.Word"
begin

unbundle bit_operations_syntax

section \<open>The flexible frame generator (src/framing/src/flexframegen.c)\<close>

subsection \<open>Data model\<close>

text \<open>
  C's \<open>unsigned int\<close> is a 32-bit word and \<open>unsigned char\<close> an 8-bit word; \<open>+\<close> and
  \<open>*\<close> wrap around as they do in C.
\<close>

type_synonym uint = "32 word"
type_synonym uchar = "8 word"

text \<open>
  A \<open>float complex\<close> sample. Floating-point arithmetic is idealised as exact arithmetic
  on the reals (no rounding). The one place where the generator's floats leave the reals,
  a division by a zero length, gives \<open>NaN\<close>.
\<close>

datatype sample = Sample complex | NaN

text \<open>
  \<open>flexframegenprops_s\<close>: the six fields in the order of the initialiser of
  \<open>flexframegenprops_default\<close>.
\<close>

record flexframegenprops_s =
  rampup_len :: uint
  phasing_len :: uint
  payload_len :: uint
  mod_scheme :: uint
  mod_bps :: uint
  rampdn_len :: uint

text \<open>
  A modem object is opaque to the generator; it is identified by the arguments of the
  \<open>modem_create\<close> call that made it.
\<close>

datatype modem = Modem_create uint uint

text \<open>The three heap buffers of the payload, as named in \<open>struct flexframegen_s\<close>.\<close>

datatype buffer = Payload | Payload_sym | Payload_samples

text \<open>
  \<open>struct flexframegen_s\<close>. Arrays and heap buffers are lists. The \<open>fec\<close> and
  \<open>interleaver\<close> objects of the header are created once and never replaced; they are part
  of the collaborators below. \<open>realloc_log\<close> is a ghost field: every \<open>realloc\<close> call
  appends the buffer and the requested number of elements.
\<close>

record flexframegen_s =
  pn_sequence :: "sample list"
  mod_header :: modem
  header :: "uchar list"
  header_enc :: "uchar list"
  header_sym :: "uchar list"
  header_samples :: "sample list"
  mod_payload :: modem
  payload :: "uchar list"
  payload_sym :: "uchar list"
  payload_samples :: "sample list"
  payload_numalloc :: uint
  payload_sym_numalloc :: uint
  payload_samples_numalloc :: uint
  props :: flexframegenprops_s
  pnsequence_len :: uint
  num_payload_symbols :: uint
  frame_len :: uint
  realloc_log :: "(buffer \<times> uint) list"

text \<open>
  How a call ends: it returns, or the process stops there. \<open>Halt f s\<close> carries the
  state \<open>s\<close> in which the process stopped. \<open>Exit_1\<close> is \<open>exit(1)\<close> after the
  configuration error message, \<open>Assert_failed\<close> a failed \<open>assert\<close>,
  \<open>Out_of_bounds\<close> an access outside a buffer and \<open>Div_undefined\<close> a call of
  \<open>div\<close> whose quotient is not representable.
\<close>

datatype fault = Exit_1 | Assert_failed | Out_of_bounds | Div_undefined

datatype 'a result = Return 'a | Halt fault 'a

fun state_of :: "'a result \<Rightarrow> 'a" where
  "state_of (Return s) = s"
| "state_of (Halt f s) = s"

fun returns :: "'a result \<Rightarrow> bool" where
  "returns (Return s) = True"
| "returns (Halt f s) = False"

fun bind_result :: "'a result \<Rightarrow> ('a \<Rightarrow> 'a result) \<Rightarrow> 'a result" where
  "bind_result (Return s) f = f s"
| "bind_result (Halt e s) f = Halt e s"

subsection \<open>Collaborators\<close>

text \<open>
  The constants and functions of liquid that this file calls and that are defined in
  other files (section 6 of the specification, "Collaborator contracts consumed"). They
  are parameters of the model; nothing is assumed about them.
  \<^item> \<open>MOD_BPSK\<close>: the enumeration constant.
  \<^item> \<open>msequence_advance m k\<close>: the bit returned by the \<open>k\<close>-th call (from 0) of
    \<open>msequence_advance\<close> on the generator made by \<open>msequence_create(m)\<close>.
  \<^item> \<open>crc32_generate_key bs\<close>: the key of the bytes \<open>bs\<close>.
  \<^item> \<open>scramble_data bs\<close>: the bytes that \<open>scramble_data\<close> leaves in place of \<open>bs\<close>.
  \<^item> \<open>fec_encode bs\<close>: the bytes that the header's encoder writes for the message \<open>bs\<close>.
  \<^item> \<open>interleaver_encode bs\<close>: the bytes that the header's interleaver writes for \<open>bs\<close>.
  \<^item> \<open>modem_modulate m s\<close>: the sample of symbol \<open>s\<close>.
  \<^item> \<open>repack_bytes sym_in in_bps in_len sym_out out_bps out_len\<close>: the bytes that
    \<open>repack_bytes\<close> leaves in the output buffer, whose contents before the call are
    \<open>sym_out\<close>.
  \<^item> \<open>h74_padding\<close>: whether the build satisfies
    \<open>!defined HAVE_FEC_H || HAVE_FEC_H==0 || LIQUID_FLEXFRAME_FORCE_H74==1\<close>.
  \<^item> \<open>uninit_uchar\<close>, \<open>uninit_uint\<close>, \<open>uninit_sample\<close>: the contents of memory
    that \<open>malloc\<close> and \<open>realloc\<close> hand out.
\<close>

record liquid =
  MOD_BPSK :: uint
  msequence_advance :: "uint \<Rightarrow> nat \<Rightarrow> bool"
  crc32_generate_key :: "uchar list \<Rightarrow> uint"
  scramble_data :: "uchar list \<Rightarrow> uchar list"
  fec_encode :: "uchar list \<Rightarrow> uchar list"
  interleaver_encode :: "uchar list \<Rightarrow> uchar list"
  modem_modulate :: "modem \<Rightarrow> uchar \<Rightarrow> sample"
  repack_bytes :: "uchar list \<Rightarrow> uint \<Rightarrow> uint \<Rightarrow> uchar list \<Rightarrow> uint \<Rightarrow> uint \<Rightarrow> uchar list"
  h74_padding :: bool
  uninit_uchar :: uchar
  uninit_uint :: uint
  uninit_sample :: sample

subsection \<open>Frame geometry\<close>

text \<open>
  \<open>div\<close> of the C library takes two \<open>int\<close>s: the \<open>unsigned int\<close> arguments are
  read as two's complement (\<open>sint\<close>), the quotient truncates towards zero and the
  remainder has the sign of the numerator. A zero denominator and \<open>INT_MIN / -1\<close> have
  no result.
\<close>

definition c_div :: "uint \<Rightarrow> uint \<Rightarrow> (int \<times> int) option" where
  "c_div numer denom =
     (let a = sint numer; b = sint denom in
      if b = 0 \<or> (a = - (2 ^ 31) \<and> b = - 1) then None
      else let q = sgn a * sgn b * (\<bar>a\<bar> div \<bar>b\<bar>) in Some (q, a - q * b))"

definition flexframegen_compute_payload_len :: "flexframegen_s \<Rightarrow> flexframegen_s result" where
  "flexframegen_compute_payload_len fg =
     (case c_div (8 * payload_len (props fg)) (mod_bps (props fg)) of
        None \<Rightarrow> Halt Div_undefined fg
      | Some (quot, rem) \<Rightarrow>
          Return (fg\<lparr>num_payload_symbols := word_of_int (quot + (if rem \<noteq> 0 then 1 else 0))\<rparr>))"

definition flexframegen_compute_frame_len :: "flexframegen_s \<Rightarrow> flexframegen_s result" where
  "flexframegen_compute_frame_len fg0 =
     bind_result (flexframegen_compute_payload_len fg0) (\<lambda>fg.
       let fg = fg\<lparr>frame_len := 0\<rparr>;
           fg = fg\<lparr>frame_len := frame_len fg + rampup_len (props fg)\<rparr>;
           fg = fg\<lparr>frame_len := frame_len fg + phasing_len (props fg)\<rparr>;
           fg = fg\<lparr>frame_len := frame_len fg + pnsequence_len fg\<rparr>;
           fg = fg\<lparr>frame_len := frame_len fg + 256\<rparr>;
           fg = fg\<lparr>frame_len := frame_len fg + num_payload_symbols fg\<rparr>;
           fg = fg\<lparr>frame_len := frame_len fg + rampdn_len (props fg)\<rparr>
       in Return fg)"

text \<open>
  \<open>realloc(p, n * sizeof *p)\<close>: the first \<open>n\<close> elements are kept, new elements are
  uninitialised. The call is assumed to succeed.
\<close>

definition realloc :: "'a \<Rightarrow> 'a list \<Rightarrow> uint \<Rightarrow> 'a list" where
  "realloc u xs n = take (unat n) xs @ replicate (unat n - length xs) u"

text \<open>
  \<open>flexframegen_configure_payload_buffers\<close>: the frame length is computed again, then
  each of the three buffers is reallocated if its recorded size is not the one required.
\<close>

definition configure_payload :: "liquid \<Rightarrow> flexframegen_s \<Rightarrow> flexframegen_s" where
  "configure_payload L fg =
     (if payload_numalloc fg \<noteq> payload_len (props fg)
      then fg\<lparr>payload := realloc (uninit_uchar L) (payload fg) (payload_len (props fg)),
              payload_numalloc := payload_len (props fg),
              realloc_log := realloc_log fg @ [(Payload, payload_len (props fg))]\<rparr>
      else fg)"

definition configure_payload_sym :: "liquid \<Rightarrow> flexframegen_s \<Rightarrow> flexframegen_s" where
  "configure_payload_sym L fg =
     (if payload_sym_numalloc fg \<noteq> num_payload_symbols fg
      then fg\<lparr>payload_sym := realloc (uninit_uchar L) (payload_sym fg) (num_payload_symbols fg),
              payload_sym_numalloc := num_payload_symbols fg,
              realloc_log := realloc_log fg @ [(Payload_sym, num_payload_symbols fg)]\<rparr>
      else fg)"

definition configure_payload_samples :: "liquid \<Rightarrow> flexframegen_s \<Rightarrow> flexframegen_s" where
  "configure_payload_samples L fg =
     (if payload_samples_numalloc fg \<noteq> num_payload_symbols fg
      then fg\<lparr>payload_samples :=
                realloc (uninit_sample L) (payload_samples fg) (num_payload_symbols fg),
              payload_samples_numalloc := num_payload_symbols fg,
              realloc_log := realloc_log fg @ [(Payload_samples, num_payload_symbols fg)]\<rparr>
      else fg)"

definition flexframegen_configure_payload_buffers ::
  "liquid \<Rightarrow> flexframegen_s \<Rightarrow> flexframegen_s result" where
  "flexframegen_configure_payload_buffers L fg0 =
     bind_result (flexframegen_compute_frame_len fg0) (\<lambda>fg.
       let fg = configure_payload L fg;
           fg = configure_payload_sym L fg;
           fg = configure_payload_samples L fg
       in Return fg)"

text \<open>
  \<open>flexframegen_setprops\<close>: the test of the modulation depth comes first; \<open>exit(1)\<close>
  stops the process with the object as it is at that point.
\<close>

definition flexframegen_setprops ::
  "liquid \<Rightarrow> flexframegen_s \<Rightarrow> flexframegenprops_s \<Rightarrow> flexframegen_s result" where
  "flexframegen_setprops L fg0 p =
     (if mod_bps p = 0 then Halt Exit_1 fg0
      else
        let fg = fg0\<lparr>props := p\<rparr>;
            fg = fg\<lparr>mod_payload := Modem_create (mod_scheme (props fg)) (mod_bps (props fg))\<rparr>
        in bind_result (flexframegen_compute_payload_len fg) (\<lambda>fg.
           bind_result (flexframegen_compute_frame_len fg) (\<lambda>fg.
           flexframegen_configure_payload_buffers L fg)))"

definition flexframegen_getprops :: "flexframegen_s \<Rightarrow> flexframegenprops_s" where
  "flexframegen_getprops fg = props fg"

definition flexframegen_getframelen :: "flexframegen_s \<Rightarrow> uint" where
  "flexframegen_getframelen fg = frame_len fg"

definition flexframegenprops_default :: "liquid \<Rightarrow> flexframegenprops_s" where
  "flexframegenprops_default L =
     \<lparr>rampup_len = 16, phasing_len = 16, payload_len = 0,
      mod_scheme = MOD_BPSK L, mod_bps = 1, rampdn_len = 16\<rparr>"

subsection \<open>Loops and memory\<close>

text \<open>
  \<open>for (i = i0; i < m; i++) body\<close> over \<open>unsigned int\<close>, where the body changes
  neither \<open>i\<close> nor \<open>m\<close>.
\<close>

function for_loop :: "uint \<Rightarrow> uint \<Rightarrow> (uint \<Rightarrow> 's \<Rightarrow> 's) \<Rightarrow> 's \<Rightarrow> 's" where
  "for_loop i m body s = (if i < m then for_loop (i + 1) m body (body i s) else s)"
  by pat_completeness auto
termination
proof (relation "measure (\<lambda>(i, m, body, s). unat m - unat i)")
  show "wf (measure (\<lambda>(i, m, body, s). unat m - unat i))" by simp
next
  fix i m :: uint and body :: "uint \<Rightarrow> 's \<Rightarrow> 's" and s :: 's
  assume a: "i < m"
  have lt: "unat i < unat m" using a by (simp add: word_less_nat_alt)
  moreover have "unat m < 2 ^ 32" using unsigned_less [of m] by simp
  ultimately have "unat i + unat (1::uint) < 2 ^ LENGTH(32)" by simp
  then have "unat (i + 1) = unat i + unat (1::uint)" by (simp only: unat_add_lem)
  then have "unat (i + 1) = Suc (unat i)" by simp
  with lt show "((i + 1, m, body, body i s), (i, m, body, s))
      \<in> measure (\<lambda>(i, m, body, s). unat m - unat i)" by simp
qed

declare for_loop.simps [simp del]

text \<open>
  \<open>memmove(dst, src, n)\<close> and \<open>memset(dst, c, n)\<close> on \<open>n\<close> elements: \<open>None\<close> when
  the call reaches outside one of the buffers.
\<close>

definition memmove :: "'a list \<Rightarrow> 'a list \<Rightarrow> nat \<Rightarrow> 'a list option" where
  "memmove dst src n =
     (if n \<le> length dst \<and> n \<le> length src then Some (take n src @ drop n dst) else None)"

definition memset :: "'a list \<Rightarrow> 'a \<Rightarrow> nat \<Rightarrow> 'a list option" where
  "memset dst c n = (if n \<le> length dst then Some (replicate n c @ drop n dst) else None)"

text \<open>
  A collaborator that writes its result through a pointer into \<open>buf\<close>, from index 0: the
  rest of \<open>buf\<close> is kept. Collaborators are taken to stay inside the buffer they are
  handed, so the size of \<open>buf\<close> does not change.
\<close>

definition store :: "'a list \<Rightarrow> 'a list \<Rightarrow> 'a list" where
  "store new buf = take (length buf) (new @ drop (length new) buf)"

subsection \<open>Header\<close>

text \<open>
  \<open>flexframegen_encode_header\<close>, one definition for each commented step of the function,
  in the order of the source.
\<close>

definition header_add_payload_length :: "flexframegen_s \<Rightarrow> flexframegen_s" where
  "header_add_payload_length fg0 =
     (let fg = fg0\<lparr>header := (header fg0)[8 := ucast (drop_bit 8 (payload_len (props fg0)) AND 0xff)]\<rparr>;
          fg = fg\<lparr>header := (header fg)[9 := ucast (payload_len (props fg) AND 0xff)]\<rparr>
      in fg)"

definition header_add_modulation :: "flexframegen_s \<Rightarrow> flexframegen_s" where
  "header_add_modulation fg0 =
     (let fg = fg0\<lparr>header := (header fg0)[10 := ucast (push_bit 4 (mod_scheme (props fg0)) AND 0xf0)]\<rparr>;
          fg = fg\<lparr>header := (header fg)[10 := (header fg ! 10) OR ucast (mod_bps (props fg) AND 0x0f)]\<rparr>
      in fg)"

definition header_compute_crc :: "liquid \<Rightarrow> flexframegen_s \<Rightarrow> flexframegen_s" where
  "header_compute_crc L fg0 =
     (let header_key = crc32_generate_key L (take 11 (header fg0));
          fg = fg0\<lparr>header := (header fg0)[11 := ucast (drop_bit 24 header_key AND 0xff)]\<rparr>;
          fg = fg\<lparr>header := (header fg)[12 := ucast (drop_bit 16 header_key AND 0xff)]\<rparr>;
          fg = fg\<lparr>header := (header fg)[13 := ucast (drop_bit 8 header_key AND 0xff)]\<rparr>;
          fg = fg\<lparr>header := (header fg)[14 := ucast (header_key AND 0xff)]\<rparr>
      in fg)"

definition header_scramble :: "liquid \<Rightarrow> flexframegen_s \<Rightarrow> flexframegen_s" where
  "header_scramble L fg = fg\<lparr>header := store (scramble_data L (take 15 (header fg))) (header fg)\<rparr>"

definition header_run_encoder :: "liquid \<Rightarrow> flexframegen_s \<Rightarrow> flexframegen_s" where
  "header_run_encoder L fg0 =
     (let fg = fg0\<lparr>header_enc := store (fec_encode L (take 15 (header fg0))) (header_enc fg0)\<rparr>;
          fg = (if h74_padding L
                then fg\<lparr>header_enc := (header_enc fg)[30 := 0xa7, 31 := 0x9e]\<rparr>
                else fg)
      in fg)"

definition header_interleave :: "liquid \<Rightarrow> flexframegen_s \<Rightarrow> flexframegen_s" where
  "header_interleave L fg =
     fg\<lparr>header_enc := store (interleaver_encode L (take 32 (header_enc fg))) (header_enc fg)\<rparr>"

definition flexframegen_encode_header :: "liquid \<Rightarrow> flexframegen_s \<Rightarrow> flexframegen_s" where
  "flexframegen_encode_header L fg0 =
     (let fg = header_add_payload_length fg0;
          fg = header_add_modulation fg;
          fg = header_compute_crc L fg;
          fg = header_scramble L fg;
          fg = header_run_encoder L fg;
          fg = header_interleave L fg
      in fg)"

text \<open>\<open>flexframegen_modulate_header\<close>: the two loops.\<close>

definition unpack_header_symbols :: "uint \<Rightarrow> flexframegen_s \<Rightarrow> flexframegen_s" where
  "unpack_header_symbols i fg =
     (let b = header_enc fg ! unat i in
      fg\<lparr>header_sym := (header_sym fg)
        [unat (8 * i + 0) := drop_bit 7 b AND 0x01,
         unat (8 * i + 1) := drop_bit 6 b AND 0x01,
         unat (8 * i + 2) := drop_bit 5 b AND 0x01,
         unat (8 * i + 3) := drop_bit 4 b AND 0x01,
         unat (8 * i + 4) := drop_bit 3 b AND 0x01,
         unat (8 * i + 5) := drop_bit 2 b AND 0x01,
         unat (8 * i + 6) := drop_bit 1 b AND 0x01,
         unat (8 * i + 7) := b AND 0x01]\<rparr>)"

definition modulate_header_symbol :: "liquid \<Rightarrow> uint \<Rightarrow> flexframegen_s \<Rightarrow> flexframegen_s" where
  "modulate_header_symbol L i fg =
     fg\<lparr>header_samples := (header_samples fg)
        [unat i := modem_modulate L (mod_header fg) (header_sym fg ! unat i)]\<rparr>"

definition flexframegen_modulate_header :: "liquid \<Rightarrow> flexframegen_s \<Rightarrow> flexframegen_s" where
  "flexframegen_modulate_header L fg0 =
     (let fg = for_loop 0 32 unpack_header_symbols fg0;
          fg = for_loop 0 256 (modulate_header_symbol L) fg
      in fg)"

subsection \<open>Payload\<close>

text \<open>\<open>flexframegen_modulate_payload\<close>: clear, repack, modulate.\<close>

definition modulate_payload_clear :: "flexframegen_s \<Rightarrow> flexframegen_s result" where
  "modulate_payload_clear fg =
     (case memset (payload_sym fg) 0x00 (unat (payload_len (props fg))) of
        None \<Rightarrow> Halt Out_of_bounds fg
      | Some cleared \<Rightarrow> Return (fg\<lparr>payload_sym := cleared\<rparr>))"

definition modulate_payload_repack :: "liquid \<Rightarrow> flexframegen_s \<Rightarrow> flexframegen_s" where
  "modulate_payload_repack L fg =
     fg\<lparr>payload_sym :=
          store (repack_bytes L (payload fg) 8 (payload_len (props fg))
                   (payload_sym fg) (mod_bps (props fg)) (num_payload_symbols fg))
                (payload_sym fg)\<rparr>"

definition modulate_payload_symbol ::
  "liquid \<Rightarrow> uint \<Rightarrow> flexframegen_s result \<Rightarrow> flexframegen_s result" where
  "modulate_payload_symbol L i r =
     bind_result r (\<lambda>fg.
       if unat i < length (payload_sym fg) \<and> unat i < length (payload_samples fg)
       then Return (fg\<lparr>payload_samples := (payload_samples fg)
              [unat i := modem_modulate L (mod_payload fg) (payload_sym fg ! unat i)]\<rparr>)
       else Halt Out_of_bounds fg)"

definition flexframegen_modulate_payload :: "liquid \<Rightarrow> flexframegen_s \<Rightarrow> flexframegen_s result" where
  "flexframegen_modulate_payload L fg0 =
     bind_result (modulate_payload_clear fg0) (\<lambda>fg.
       let fg = modulate_payload_repack L fg
       in for_loop 0 (num_payload_symbols fg) (modulate_payload_symbol L) (Return fg))"

subsection \<open>Construction\<close>

definition generate_pn_sequence :: "liquid \<Rightarrow> uint \<Rightarrow> flexframegen_s \<Rightarrow> flexframegen_s" where
  "generate_pn_sequence L i fg =
     fg\<lparr>pn_sequence := (pn_sequence fg)
        [unat i := (if msequence_advance L 6 (unat i) then Sample 1 else Sample (- 1))]\<rparr>"

text \<open>
  \<open>flexframegen_create\<close> up to the comment "initialize properties": the object starts as
  uninitialised memory, then the p/n sequence, the header objects, the one-element payload
  buffers and the payload modem are set.
\<close>

definition create_object :: "liquid \<Rightarrow> flexframegen_s" where
  "create_object L =
     (let fg = \<lparr>pn_sequence = replicate 64 (uninit_sample L),
                mod_header = Modem_create (uninit_uint L) (uninit_uint L),
                header = replicate 15 (uninit_uchar L),
                header_enc = replicate 32 (uninit_uchar L),
                header_sym = replicate 256 (uninit_uchar L),
                header_samples = replicate 256 (uninit_sample L),
                mod_payload = Modem_create (uninit_uint L) (uninit_uint L),
                payload = [], payload_sym = [], payload_samples = [],
                payload_numalloc = uninit_uint L,
                payload_sym_numalloc = uninit_uint L,
                payload_samples_numalloc = uninit_uint L,
                props = \<lparr>rampup_len = uninit_uint L, phasing_len = uninit_uint L,
                         payload_len = uninit_uint L, mod_scheme = uninit_uint L,
                         mod_bps = uninit_uint L, rampdn_len = uninit_uint L\<rparr>,
                pnsequence_len = uninit_uint L,
                num_payload_symbols = uninit_uint L,
                frame_len = uninit_uint L,
                realloc_log = []\<rparr>;
          fg = fg\<lparr>pnsequence_len := 64\<rparr>;
          fg = for_loop 0 64 (generate_pn_sequence L) fg;
          fg = fg\<lparr>mod_header := Modem_create (MOD_BPSK L) 1\<rparr>;
          fg = fg\<lparr>payload := replicate 1 (uninit_uchar L), payload_numalloc := 1\<rparr>;
          fg = fg\<lparr>payload_sym := replicate 1 (uninit_uchar L), payload_sym_numalloc := 1\<rparr>;
          fg = fg\<lparr>payload_samples := replicate 1 (uninit_sample L), payload_samples_numalloc := 1\<rparr>;
          fg = fg\<lparr>mod_payload := Modem_create (MOD_BPSK L) 1\<rparr>
      in fg)"

text \<open>\<open>flexframegen_create\<close>; \<open>None\<close> is the \<open>NULL\<close> properties pointer.\<close>

definition flexframegen_create ::
  "liquid \<Rightarrow> flexframegenprops_s option \<Rightarrow> flexframegen_s result" where
  "flexframegen_create L props_in =
     bind_result
       (case props_in of
          Some p \<Rightarrow> flexframegen_setprops L (create_object L) p
        | None \<Rightarrow> flexframegen_setprops L (create_object L) (flexframegenprops_default L))
       (flexframegen_configure_payload_buffers L)"

subsection \<open>Execution\<close>

text \<open>
  The samples of the preamble and of the ramp down, as the source computes them. \<open>i\<close> is
  the index in the segment and \<open>n\<close> the running index in the frame. The ramp down divides
  by \<open>rampup_len\<close>, as the source does.
\<close>

definition sign :: "uint \<Rightarrow> real" where
  "sign k = (if k mod 2 \<noteq> 0 then 1 else - 1)"

definition ramp_up_sample :: "flexframegenprops_s \<Rightarrow> uint \<Rightarrow> uint \<Rightarrow> sample" where
  "ramp_up_sample p i n =
     (if rampup_len p = 0 then NaN
      else Sample (complex_of_real
             (sign n * 0.5 * (1 - cos (pi * real (unat i) / real (unat (rampup_len p)))))))"

definition phasing_sample :: "uint \<Rightarrow> sample" where
  "phasing_sample n = Sample (complex_of_real (sign n))"

definition ramp_dn_sample :: "flexframegenprops_s \<Rightarrow> uint \<Rightarrow> sample" where
  "ramp_dn_sample p i =
     (if rampup_len p = 0 then NaN
      else Sample (complex_of_real
             (sign i * 0.5 * (1 + cos (pi * real (unat i) / real (unat (rampup_len p)))))))"

text \<open>
  The frame under construction: the running index \<open>n\<close> and the samples stored through
  \<open>_y\<close> so far, in the order of the stores. The \<open>k\<close>-th store goes to \<open>_y[n]\<close>, and
  \<open>n = k\<close> as long as \<open>n\<close> has not wrapped around.
\<close>

type_synonym frame = "uint \<times> sample list"

definition write_ramp_up :: "flexframegenprops_s \<Rightarrow> uint \<Rightarrow> frame \<Rightarrow> frame" where
  "write_ramp_up p i f = (case f of (n, y) \<Rightarrow> (n + 1, y @ [ramp_up_sample p i n]))"

definition write_phasing :: "uint \<Rightarrow> frame \<Rightarrow> frame" where
  "write_phasing i f = (case f of (n, y) \<Rightarrow> (n + 1, y @ [phasing_sample n]))"

definition write_pn_sequence :: "flexframegen_s \<Rightarrow> uint \<Rightarrow> frame \<Rightarrow> frame" where
  "write_pn_sequence fg i f = (case f of (n, y) \<Rightarrow> (n + 1, y @ [pn_sequence fg ! unat i]))"

definition write_ramp_dn :: "flexframegenprops_s \<Rightarrow> uint \<Rightarrow> frame \<Rightarrow> frame" where
  "write_ramp_dn p i f = (case f of (n, y) \<Rightarrow> (n + 1, y @ [ramp_dn_sample p i]))"

text \<open>
  \<open>flexframegen_execute\<close>. \<open>header_in\<close> and \<open>payload_in\<close> are the caller's buffers
  \<open>_header\<close> and \<open>_payload\<close>. The state is the object and the frame written so far.
\<close>

definition copy_and_encode_header ::
  "liquid \<Rightarrow> uchar list \<Rightarrow> flexframegen_s \<times> frame \<Rightarrow> (flexframegen_s \<times> frame) result" where
  "copy_and_encode_header L header_in s =
     (case s of (fg0, f) \<Rightarrow>
        (case memmove (header fg0) header_in 8 of
           None \<Rightarrow> Halt Out_of_bounds (fg0, f)
         | Some h \<Rightarrow>
             (let fg = fg0\<lparr>header := h\<rparr>;
                  fg = flexframegen_encode_header L fg;
                  fg = flexframegen_modulate_header L fg
              in Return (fg, (fst f + 256, snd f @ take 256 (header_samples fg))))))"

definition copy_and_encode_payload ::
  "liquid \<Rightarrow> uchar list \<Rightarrow> flexframegen_s \<times> frame \<Rightarrow> (flexframegen_s \<times> frame) result" where
  "copy_and_encode_payload L payload_in s =
     (case s of (fg0, f) \<Rightarrow>
        (case memmove (payload fg0) payload_in (unat (payload_len (props fg0))) of
           None \<Rightarrow> Halt Out_of_bounds (fg0, f)
         | Some pl \<Rightarrow>
             (case flexframegen_modulate_payload L (fg0\<lparr>payload := pl\<rparr>) of
                Halt e fg \<Rightarrow> Halt e (fg, f)
              | Return fg \<Rightarrow>
                  (if length (payload_samples fg) < unat (num_payload_symbols fg)
                   then Halt Out_of_bounds (fg, f)
                   else Return (fg, (fst f + num_payload_symbols fg,
                          snd f @ take (unat (num_payload_symbols fg)) (payload_samples fg)))))))"

definition ramp_down_and_check ::
  "flexframegen_s \<times> frame \<Rightarrow> (flexframegen_s \<times> frame) result" where
  "ramp_down_and_check s =
     (case s of (fg, f0) \<Rightarrow>
        (let f = for_loop 0 (rampdn_len (props fg)) (write_ramp_dn (props fg)) f0
         in if fst f = frame_len fg then Return (fg, f) else Halt Assert_failed (fg, f)))"

definition flexframegen_execute ::
  "liquid \<Rightarrow> flexframegen_s \<Rightarrow> uchar list \<Rightarrow> uchar list \<Rightarrow> (flexframegen_s \<times> frame) result" where
  "flexframegen_execute L fg header_in payload_in =
     (let f = (0, []);
          f = for_loop 0 (rampup_len (props fg)) (write_ramp_up (props fg)) f;
          f = for_loop 0 (phasing_len (props fg)) write_phasing f;
          f = for_loop 0 64 (write_pn_sequence fg) f
      in bind_result (copy_and_encode_header L header_in (fg, f)) (\<lambda>s.
         bind_result (copy_and_encode_payload L payload_in s) ramp_down_and_check))"

subsection \<open>States of a generator\<close>

text \<open>
  What \<open>flexframegen_create\<close> sets up and no function changes afterwards: the sizes of
  the arrays, the length of the p/n sequence, the modem of the header; and each heap buffer
  has the size recorded for it.
\<close>

definition initialised :: "liquid \<Rightarrow> flexframegen_s \<Rightarrow> bool" where
  "initialised L fg \<longleftrightarrow>
     length (pn_sequence fg) = 64 \<and> length (header fg) = 15 \<and>
     length (header_enc fg) = 32 \<and> length (header_sym fg) = 256 \<and>
     length (header_samples fg) = 256 \<and>
     pnsequence_len fg = 64 \<and>
     mod_header fg = Modem_create (MOD_BPSK L) 1 \<and>
     length (payload fg) = unat (payload_numalloc fg) \<and>
     length (payload_sym fg) = unat (payload_sym_numalloc fg) \<and>
     length (payload_samples fg) = unat (payload_samples_numalloc fg)"

text \<open>
  A generator whose properties have been set: computing the frame length again changes
  nothing, and the buffers have the sizes that \<open>flexframegen_configure_payload_buffers\<close>
  gives them.
\<close>

definition configured :: "liquid \<Rightarrow> flexframegen_s \<Rightarrow> bool" where
  "configured L fg \<longleftrightarrow>
     initialised L fg \<and>
     flexframegen_compute_frame_len fg = Return fg \<and>
     payload_numalloc fg = payload_len (props fg) \<and>
     payload_sym_numalloc fg = num_payload_symbols fg \<and>
     payload_samples_numalloc fg = num_payload_symbols fg"

subsection \<open>The specification's geometry and header record\<close>

text \<open>
  The specification's frame geometry, over the unbounded integers:
  \<open>ceil(8 \<times> payload_length / modulation_depth)\<close> payload symbols, and the sum of the six
  segment lengths.
\<close>

definition spec_num_payload_symbols :: "flexframegenprops_s \<Rightarrow> nat" where
  "spec_num_payload_symbols p =
     nat \<lceil>real (8 * unat (payload_len p)) / real (unat (mod_bps p))\<rceil>"

definition spec_frame_length :: "flexframegenprops_s \<Rightarrow> nat" where
  "spec_frame_length p =
     unat (rampup_len p) + unat (phasing_len p) + 64 + 256 + spec_num_payload_symbols p
       + unat (rampdn_len p)"

text \<open>
  The specification's raw header record: 8 bytes of caller content, the payload length as
  a big-endian 16-bit field, one byte packing the scheme and the depth as two 4-bit
  fields, and the 32-bit checksum of these 11 bytes, big-endian.
\<close>

definition spec_header_prefix :: "uchar list \<Rightarrow> flexframegenprops_s \<Rightarrow> uchar list" where
  "spec_header_prefix content p =
     take 8 content
     @ [ucast (drop_bit 8 (payload_len p)), ucast (payload_len p)]
     @ [push_bit 4 (ucast (mod_scheme p)) OR take_bit 4 (ucast (mod_bps p))]"

definition spec_header_record :: "liquid \<Rightarrow> uchar list \<Rightarrow> flexframegenprops_s \<Rightarrow> uchar list" where
  "spec_header_record L content p =
     (let prefix = spec_header_prefix content p; key = crc32_generate_key L prefix
      in prefix @ [ucast (drop_bit 24 key), ucast (drop_bit 16 key), ucast (drop_bit 8 key), ucast key])"

text \<open>Bit \<open>k\<close> of the encoded header, most significant bit of each byte first.\<close>

definition header_bit :: "uchar list \<Rightarrow> nat \<Rightarrow> uchar" where
  "header_bit enc k = drop_bit (7 - k mod 8) (enc ! (k div 8)) AND 1"

subsection \<open>An instance of the collaborators\<close>

text \<open>
  To run the model on concrete inputs the collaborators need values. Any would do; these
  keep the sizes of liquid's (a 15-byte scrambler, a 30-byte code word, a 32-byte
  interleaver).
\<close>

definition example_liquid :: liquid where
  "example_liquid =
     \<lparr>MOD_BPSK = 2,
      msequence_advance = (\<lambda>m k. even k),
      crc32_generate_key = (\<lambda>bs. of_nat (length bs)),
      scramble_data = map (\<lambda>b. b XOR 0xb4),
      fec_encode = (\<lambda>bs. bs @ bs),
      interleaver_encode = rev,
      modem_modulate = (\<lambda>m s. if s = 0 then Sample 1 else Sample (- 1)),
      repack_bytes = (\<lambda>sym_in in_bps in_len sym_out out_bps out_len. sym_out),
      h74_padding = True,
      uninit_uchar = 0xaa,
      uninit_uint = 0xaaaaaaaa,
      uninit_sample = NaN\<rparr>"

section \<open>Properties\<close>

subsection \<open>Geometry and buffers\<close>

lemma length_realloc: "length (realloc u xs n) = unat n"
  by (simp add: realloc_def)

lemma configure_payload_fields [simp]:
  "pn_sequence (configure_payload L fg) = pn_sequence fg"
  "mod_header (configure_payload L fg) = mod_header fg"
  "header (configure_payload L fg) = header fg"
  "header_enc (configure_payload L fg) = header_enc fg"
  "header_sym (configure_payload L fg) = header_sym fg"
  "header_samples (configure_payload L fg) = header_samples fg"
  "mod_payload (configure_payload L fg) = mod_payload fg"
  "payload_sym (configure_payload L fg) = payload_sym fg"
  "payload_samples (configure_payload L fg) = payload_samples fg"
  "payload_numalloc (configure_payload L fg) = payload_len (props fg)"
  "payload_sym_numalloc (configure_payload L fg) = payload_sym_numalloc fg"
  "payload_samples_numalloc (configure_payload L fg) = payload_samples_numalloc fg"
  "props (configure_payload L fg) = props fg"
  "pnsequence_len (configure_payload L fg) = pnsequence_len fg"
  "num_payload_symbols (configure_payload L fg) = num_payload_symbols fg"
  "frame_len (configure_payload L fg) = frame_len fg"
  by (simp_all add: configure_payload_def)

lemma configure_payload_sym_fields [simp]:
  "pn_sequence (configure_payload_sym L fg) = pn_sequence fg"
  "mod_header (configure_payload_sym L fg) = mod_header fg"
  "header (configure_payload_sym L fg) = header fg"
  "header_enc (configure_payload_sym L fg) = header_enc fg"
  "header_sym (configure_payload_sym L fg) = header_sym fg"
  "header_samples (configure_payload_sym L fg) = header_samples fg"
  "mod_payload (configure_payload_sym L fg) = mod_payload fg"
  "payload (configure_payload_sym L fg) = payload fg"
  "payload_samples (configure_payload_sym L fg) = payload_samples fg"
  "payload_numalloc (configure_payload_sym L fg) = payload_numalloc fg"
  "payload_sym_numalloc (configure_payload_sym L fg) = num_payload_symbols fg"
  "payload_samples_numalloc (configure_payload_sym L fg) = payload_samples_numalloc fg"
  "props (configure_payload_sym L fg) = props fg"
  "pnsequence_len (configure_payload_sym L fg) = pnsequence_len fg"
  "num_payload_symbols (configure_payload_sym L fg) = num_payload_symbols fg"
  "frame_len (configure_payload_sym L fg) = frame_len fg"
  by (simp_all add: configure_payload_sym_def)

lemma configure_payload_samples_fields [simp]:
  "pn_sequence (configure_payload_samples L fg) = pn_sequence fg"
  "mod_header (configure_payload_samples L fg) = mod_header fg"
  "header (configure_payload_samples L fg) = header fg"
  "header_enc (configure_payload_samples L fg) = header_enc fg"
  "header_sym (configure_payload_samples L fg) = header_sym fg"
  "header_samples (configure_payload_samples L fg) = header_samples fg"
  "mod_payload (configure_payload_samples L fg) = mod_payload fg"
  "payload (configure_payload_samples L fg) = payload fg"
  "payload_sym (configure_payload_samples L fg) = payload_sym fg"
  "payload_numalloc (configure_payload_samples L fg) = payload_numalloc fg"
  "payload_sym_numalloc (configure_payload_samples L fg) = payload_sym_numalloc fg"
  "payload_samples_numalloc (configure_payload_samples L fg) = num_payload_symbols fg"
  "props (configure_payload_samples L fg) = props fg"
  "pnsequence_len (configure_payload_samples L fg) = pnsequence_len fg"
  "num_payload_symbols (configure_payload_samples L fg) = num_payload_symbols fg"
  "frame_len (configure_payload_samples L fg) = frame_len fg"
  by (simp_all add: configure_payload_samples_def)

lemma configure_lengths:
  "length (payload fg) = unat (payload_numalloc fg) \<Longrightarrow>
     length (payload (configure_payload L fg)) = unat (payload_len (props fg))"
  "length (payload_sym fg) = unat (payload_sym_numalloc fg) \<Longrightarrow>
     length (payload_sym (configure_payload_sym L fg)) = unat (num_payload_symbols fg)"
  "length (payload_samples fg) = unat (payload_samples_numalloc fg) \<Longrightarrow>
     length (payload_samples (configure_payload_samples L fg)) = unat (num_payload_symbols fg)"
  by (simp_all add: configure_payload_def configure_payload_sym_def configure_payload_samples_def
      length_realloc)

lemma configure_noop:
  "payload_numalloc fg = payload_len (props fg) \<Longrightarrow> configure_payload L fg = fg"
  "payload_sym_numalloc fg = num_payload_symbols fg \<Longrightarrow> configure_payload_sym L fg = fg"
  "payload_samples_numalloc fg = num_payload_symbols fg \<Longrightarrow> configure_payload_samples L fg = fg"
  by (simp_all add: configure_payload_def configure_payload_sym_def configure_payload_samples_def)

text \<open>The geometry as a function of the properties.\<close>

lemma compute_payload_len_eq:
  "flexframegen_compute_payload_len fg =
     (case c_div (8 * payload_len (props fg)) (mod_bps (props fg)) of
        None \<Rightarrow> Halt Div_undefined fg
      | Some qr \<Rightarrow> Return (fg\<lparr>num_payload_symbols :=
          word_of_int (fst qr + (if snd qr \<noteq> 0 then 1 else 0))\<rparr>))"
  by (simp add: flexframegen_compute_payload_len_def split: option.splits prod.splits)

lemma compute_frame_len_eq:
  "flexframegen_compute_frame_len fg =
     (case c_div (8 * payload_len (props fg)) (mod_bps (props fg)) of
        None \<Rightarrow> Halt Div_undefined fg
      | Some qr \<Rightarrow> Return (fg\<lparr>num_payload_symbols :=
            word_of_int (fst qr + (if snd qr \<noteq> 0 then 1 else 0)),
          frame_len := rampup_len (props fg) + phasing_len (props fg) + pnsequence_len fg + 256
            + word_of_int (fst qr + (if snd qr \<noteq> 0 then 1 else 0)) + rampdn_len (props fg)\<rparr>))"
  by (simp add: flexframegen_compute_frame_len_def compute_payload_len_eq Let_def
      split: option.splits)

lemma configure_eq:
  "flexframegen_configure_payload_buffers L fg =
     (case flexframegen_compute_frame_len fg of
        Halt e s \<Rightarrow> Halt e s
      | Return s \<Rightarrow> Return (configure_payload_samples L (configure_payload_sym L (configure_payload L s))))"
  by (simp add: flexframegen_configure_payload_buffers_def Let_def split: result.splits)

lemma compute_frame_len_idem:
  "flexframegen_compute_frame_len fg = Return s \<Longrightarrow> flexframegen_compute_frame_len s = Return s"
  by (auto simp: compute_frame_len_eq split: option.splits)

lemma compute_frame_len_fields:
  assumes "flexframegen_compute_frame_len fg = Return s"
  shows "props s = props fg" "pnsequence_len s = pnsequence_len fg"
    "frame_len s = rampup_len (props fg) + phasing_len (props fg) + pnsequence_len fg + 256
            + num_payload_symbols s + rampdn_len (props fg)"
    "mod_header s = mod_header fg" "mod_payload s = mod_payload fg"
    "pn_sequence s = pn_sequence fg" "header s = header fg" "header_enc s = header_enc fg"
    "header_sym s = header_sym fg" "header_samples s = header_samples fg"
    "payload s = payload fg" "payload_sym s = payload_sym fg" "payload_samples s = payload_samples fg"
    "payload_numalloc s = payload_numalloc fg" "payload_sym_numalloc s = payload_sym_numalloc fg"
    "payload_samples_numalloc s = payload_samples_numalloc fg" "realloc_log s = realloc_log fg"
  using assms by (auto simp: compute_frame_len_eq split: option.splits)

lemma compute_frame_len_cong:
  assumes "props fg2 = props fg" "pnsequence_len fg2 = pnsequence_len fg"
    "flexframegen_compute_frame_len fg = Return s"
  shows "\<exists>s2. flexframegen_compute_frame_len fg2 = Return s2 \<and>
     num_payload_symbols s2 = num_payload_symbols s \<and> frame_len s2 = frame_len s"
  using assms by (auto simp: compute_frame_len_eq split: option.splits)

lemma compute_frame_len_fix:
  assumes "props fg2 = props fg" "pnsequence_len fg2 = pnsequence_len fg"
    "num_payload_symbols fg2 = num_payload_symbols fg" "frame_len fg2 = frame_len fg"
    "flexframegen_compute_frame_len fg = Return fg"
  shows "flexframegen_compute_frame_len fg2 = Return fg2"
proof -
  obtain s2 where s2: "flexframegen_compute_frame_len fg2 = Return s2"
    "num_payload_symbols s2 = num_payload_symbols fg" "frame_len s2 = frame_len fg"
    using compute_frame_len_cong [OF assms(1,2,5)] by auto
  have "s2 = fg2\<lparr>num_payload_symbols := num_payload_symbols s2, frame_len := frame_len s2\<rparr>"
    using s2(1) by (auto simp: compute_frame_len_eq split: option.splits)
  then have "s2 = fg2" using s2(2,3) assms(3,4) by simp
  then show ?thesis using s2(1) by simp
qed

lemma configure_Return:
  assumes "flexframegen_configure_payload_buffers L fg = Return fg'"
  shows "props fg' = props fg" "pnsequence_len fg' = pnsequence_len fg"
    "frame_len fg' = rampup_len (props fg) + phasing_len (props fg) + pnsequence_len fg + 256
            + num_payload_symbols fg' + rampdn_len (props fg)"
    "payload_numalloc fg' = payload_len (props fg)"
    "payload_sym_numalloc fg' = num_payload_symbols fg'"
    "payload_samples_numalloc fg' = num_payload_symbols fg'"
    "mod_header fg' = mod_header fg" "mod_payload fg' = mod_payload fg"
    "pn_sequence fg' = pn_sequence fg" "header fg' = header fg" "header_enc fg' = header_enc fg"
    "header_sym fg' = header_sym fg" "header_samples fg' = header_samples fg"
    "flexframegen_compute_frame_len fg' = Return fg'"
proof -
  obtain s where s: "flexframegen_compute_frame_len fg = Return s"
    and fg': "fg' = configure_payload_samples L (configure_payload_sym L (configure_payload L s))"
    using assms by (auto simp: configure_eq split: result.splits)
  note f = compute_frame_len_fields [OF s]
  show "props fg' = props fg" "pnsequence_len fg' = pnsequence_len fg"
    "frame_len fg' = rampup_len (props fg) + phasing_len (props fg) + pnsequence_len fg + 256
            + num_payload_symbols fg' + rampdn_len (props fg)"
    "payload_numalloc fg' = payload_len (props fg)"
    "payload_sym_numalloc fg' = num_payload_symbols fg'"
    "payload_samples_numalloc fg' = num_payload_symbols fg'"
    "mod_header fg' = mod_header fg" "mod_payload fg' = mod_payload fg"
    "pn_sequence fg' = pn_sequence fg" "header fg' = header fg" "header_enc fg' = header_enc fg"
    "header_sym fg' = header_sym fg" "header_samples fg' = header_samples fg"
    by (simp_all add: fg' f)
  show "flexframegen_compute_frame_len fg' = Return fg'"
    by (rule compute_frame_len_fix [OF _ _ _ _ compute_frame_len_idem [OF s]]) (simp_all add: fg')
qed

lemma configure_initialised:
  assumes "flexframegen_configure_payload_buffers L fg = Return fg'" "initialised L fg"
  shows "initialised L fg'"
proof -
  obtain s where s: "flexframegen_compute_frame_len fg = Return s"
    and fg': "fg' = configure_payload_samples L (configure_payload_sym L (configure_payload L s))"
    using assms by (auto simp: configure_eq split: result.splits)
  note f = compute_frame_len_fields [OF s]
  have "length (payload s) = unat (payload_numalloc s)"
    "length (payload_sym s) = unat (payload_sym_numalloc s)"
    "length (payload_samples s) = unat (payload_samples_numalloc s)"
    using assms(2) by (simp_all add: initialised_def f)
  then have "length (payload fg') = unat (payload_numalloc fg')"
    "length (payload_sym fg') = unat (payload_sym_numalloc fg')"
    "length (payload_samples fg') = unat (payload_samples_numalloc fg')"
    by (simp_all add: fg' configure_lengths)
  then show ?thesis
    using assms(2) by (simp add: initialised_def configure_Return [OF assms(1)])
qed

lemma configure_configured:
  assumes "flexframegen_configure_payload_buffers L fg = Return fg'" "initialised L fg"
  shows "configured L fg'"
  using configure_initialised [OF assms] configure_Return [OF assms(1)]
  by (simp add: configured_def)

lemma configured_configure:
  assumes "configured L fg"
  shows "flexframegen_configure_payload_buffers L fg = Return fg"
  using assms by (simp add: configured_def configure_eq configure_noop)

lemma configure_returns:
  "returns (flexframegen_configure_payload_buffers L fg) \<longleftrightarrow>
     c_div (8 * payload_len (props fg)) (mod_bps (props fg)) \<noteq> None"
  by (simp add: configure_eq compute_frame_len_eq split: option.splits)

lemma setprops_eq:
  "flexframegen_setprops L fg p =
     (if mod_bps p = 0 then Halt Exit_1 fg
      else flexframegen_configure_payload_buffers L
             (fg\<lparr>props := p, mod_payload := Modem_create (mod_scheme p) (mod_bps p)\<rparr>))"
  by (simp add: flexframegen_setprops_def Let_def configure_eq compute_frame_len_eq
      compute_payload_len_eq split: option.splits)

lemma setprops_returns:
  "returns (flexframegen_setprops L fg p) \<longleftrightarrow>
     mod_bps p \<noteq> 0 \<and> c_div (8 * payload_len p) (mod_bps p) \<noteq> None"
  by (simp add: setprops_eq configure_returns)

lemma setprops_Return:
  assumes "flexframegen_setprops L fg p = Return fg'"
  shows "mod_bps p \<noteq> 0" "props fg' = p" "pnsequence_len fg' = pnsequence_len fg"
    "frame_len fg' = rampup_len p + phasing_len p + pnsequence_len fg + 256
            + num_payload_symbols fg' + rampdn_len p"
    "mod_header fg' = mod_header fg" "mod_payload fg' = Modem_create (mod_scheme p) (mod_bps p)"
    "pn_sequence fg' = pn_sequence fg" "header fg' = header fg" "header_enc fg' = header_enc fg"
    "header_sym fg' = header_sym fg" "header_samples fg' = header_samples fg"
    "initialised L fg \<Longrightarrow> configured L fg'"
proof -
  let ?fg = "fg\<lparr>props := p, mod_payload := Modem_create (mod_scheme p) (mod_bps p)\<rparr>"
  show nz: "mod_bps p \<noteq> 0" using assms by (auto simp: setprops_eq split: if_splits)
  then have c: "flexframegen_configure_payload_buffers L ?fg = Return fg'"
    using assms by (simp add: setprops_eq)
  note r = configure_Return [OF c]
  show "props fg' = p" "pnsequence_len fg' = pnsequence_len fg"
    "frame_len fg' = rampup_len p + phasing_len p + pnsequence_len fg + 256
            + num_payload_symbols fg' + rampdn_len p"
    "mod_header fg' = mod_header fg" "mod_payload fg' = Modem_create (mod_scheme p) (mod_bps p)"
    "pn_sequence fg' = pn_sequence fg" "header fg' = header fg" "header_enc fg' = header_enc fg"
    "header_sym fg' = header_sym fg" "header_samples fg' = header_samples fg"
    using r by simp_all
  assume "initialised L fg"
  then have "initialised L ?fg" by (simp add: initialised_def)
  then show "configured L fg'" by (rule configure_configured [OF c])
qed

subsection \<open>Arithmetic of the payload length\<close>

lemma sint_small: "unat (w::uint) < 2147483648 \<Longrightarrow> sint w = int (unat w)"
proof -
  assume a: "unat w < 2147483648"
  then have "int (unat w) < int 2147483648" by (simp only: of_nat_less_iff)
  then have "uint w < 2 ^ 31" by simp
  moreover have "- (2 ^ 31) \<le> uint w" by (rule order_trans [of _ 0]) simp_all
  ultimately have "signed_take_bit 31 (uint w) = uint w"
    by (rule signed_take_bit_int_eq_self [rotated])
  then show ?thesis by (simp add: sint_uint)
qed

lemma c_div_small:
  assumes "unat a < 2147483648" "unat b < 2147483648" "b \<noteq> 0"
  shows "c_div a b = Some (int (unat a div unat b), int (unat a mod unat b))"
proof -
  define x where "x = unat a"
  define y where "y = unat b"
  have sa: "sint a = int x" and sb: "sint b = int y"
    using assms by (simp_all only: sint_small x_def y_def)
  have y0: "0 < y" using assms(3) by (simp add: unat_gt_0 y_def)
  have q: "sgn (int x) * sgn (int y) * (\<bar>int x\<bar> div \<bar>int y\<bar>) = int (x div y)"
    using y0 by (cases "x = 0") (simp_all add: zdiv_int)
  have r: "int x - int (x div y) * int y = int (x mod y)"
    by (metis add_diff_cancel_left' mult.commute of_nat_add of_nat_mult mult_div_mod_eq)
  have "c_div a b = Some (int (x div y), int (x mod y))"
    unfolding c_div_def sa sb Let_def q r using y0 by simp
  then show ?thesis by (simp only: x_def y_def)
qed

lemma ceiling_div:
  "0 < b \<Longrightarrow> nat \<lceil>real a / real b\<rceil> = a div b + (if a mod b \<noteq> 0 then 1 else 0)"
proof -
  assume b: "0 < b"
  show ?thesis
  proof (cases "a mod b = 0")
    case True
    then have "real a / real b = real (a div b)"
      using b by (metis real_of_nat_div dvd_eq_mod_eq_0)
    then show ?thesis using True by simp
  next
    case False
    have "real a = real (a div b) * real b + real (a mod b)"
      by (metis div_mult_mod_eq of_nat_add of_nat_mult)
    then have "real a / real b = real (a div b) + real (a mod b) / real b"
      using b by (simp add: field_simps)
    moreover have "0 < real (a mod b) / real b" using False b by simp
    moreover have "real (a mod b) / real b < 1" using b by simp
    ultimately have "\<lceil>real a / real b\<rceil> = int (a div b) + 1"
      by (intro ceiling_unique) auto
    then show ?thesis using False by simp
  qed
qed

lemma unat_mult_8:
  assumes "8 * unat (w::uint) < 2147483648"
  shows "unat (8 * w) = 8 * unat w"
proof -
  have "unat (8::uint) * unat w < 2 ^ LENGTH(32)" using assms by simp
  then have "unat (8 * w) = unat (8::uint) * unat w" by (simp only: unat_mult_lem)
  then show ?thesis by simp
qed

text \<open>The number of payload symbols of a configuration in the range of \<open>int\<close>.\<close>

lemma symbols_in_range:
  assumes "mod_bps p \<noteq> 0" "8 * unat (payload_len p) < 2147483648"
    "unat (mod_bps p) < 2147483648"
  shows "\<exists>q r. c_div (8 * payload_len p) (mod_bps p) = Some (q, r) \<and>
     unat (word_of_int (q + (if r \<noteq> 0 then 1 else 0)) :: uint) = spec_num_payload_symbols p"
proof -
  define a where "a = 8 * unat (payload_len p)"
  define b where "b = unat (mod_bps p)"
  have ua: "unat (8 * payload_len p) = a" using assms(2) by (simp add: unat_mult_8 a_def)
  have b0: "0 < b" using assms(1) by (simp add: unat_gt_0 b_def)
  have d: "c_div (8 * payload_len p) (mod_bps p) = Some (int (a div b), int (a mod b))"
    using c_div_small [of "8 * payload_len p" "mod_bps p"] assms ua by (simp add: a_def b_def)
  define k where "k = a div b + (if a mod b \<noteq> 0 then 1 else 0)"
  have le: "a div b \<le> a" by simp
  have "k \<le> a + 1" using le by (simp add: k_def le_SucI)
  then have kb: "k < 2 ^ LENGTH(32)" using assms(2) by (simp add: a_def)
  have "int (a div b) + (if int (a mod b) \<noteq> 0 then 1 else 0) = int k" by (simp add: k_def)
  then have "unat (word_of_int (int (a div b) + (if int (a mod b) \<noteq> 0 then 1 else 0)) :: uint)
      = unat (of_nat k :: uint)" by simp
  also have "\<dots> = k" using kb by (simp add: unat_of_nat)
  also have "\<dots> = spec_num_payload_symbols p"
    using ceiling_div [OF b0, of a] by (simp add: spec_num_payload_symbols_def k_def a_def b_def)
  finally show ?thesis using d by blast
qed

subsection \<open>Loops\<close>

lemma for_loop_preserves:
  assumes "\<And>k s. g (body k s) = g s"
  shows "g (for_loop i m body s) = g s"
  using assms
proof (induction i m body s rule: for_loop.induct)
  case (1 i m body s)
  show ?case
  proof (cases "i < m")
    case True
    then have "g (for_loop i m body s) = g (for_loop (i + 1) m body (body i s))"
      by (simp add: for_loop.simps [of i])
    also have "\<dots> = g (body i s)" using "1.IH" [OF True] "1.prems" by simp
    finally show ?thesis using "1.prems" by simp
  next
    case False
    then show ?thesis by (simp add: for_loop.simps [of i])
  qed
qed

lemma unat_word_Suc: "i < (m::uint) \<Longrightarrow> unat (i + 1) = Suc (unat i)"
proof -
  assume a: "i < m"
  have "unat i < unat m" using a by (simp add: word_less_nat_alt)
  moreover have "unat m < 2 ^ 32" using unsigned_less [of m] by simp
  ultimately have "unat i + unat (1::uint) < 2 ^ LENGTH(32)" by simp
  then have "unat (i + 1) = unat i + unat (1::uint)" by (simp only: unat_add_lem)
  then show ?thesis by simp
qed

lemma for_loop_fold_from:
  "i \<le> m \<Longrightarrow> for_loop i m body s = fold (\<lambda>k. body (of_nat k)) [unat i..<unat m] s"
proof (induction i m body s rule: for_loop.induct)
  case (1 i m body s)
  show ?case
  proof (cases "i < m")
    case True
    have lt: "unat i < unat m" using True by (simp add: word_less_nat_alt)
    have suc: "unat (i + 1) = Suc (unat i)" by (rule unat_word_Suc [OF True])
    have "i + 1 \<le> m" by (rule inc_le [OF True])
    then have "for_loop (i + 1) m body (body i s)
        = fold (\<lambda>k. body (of_nat k)) [Suc (unat i)..<unat m] (body i s)"
      using "1.IH" [OF True] suc by simp
    moreover have "[unat i..<unat m] = unat i # [Suc (unat i)..<unat m]"
      using lt by (simp add: upt_conv_Cons)
    ultimately show ?thesis using True by (simp add: for_loop.simps [of i])
  next
    case False
    then have "i = m" using "1.prems" by simp
    then show ?thesis by (simp add: for_loop.simps [of m])
  qed
qed

lemma for_loop_fold:
  "for_loop 0 m body s = fold (\<lambda>k. body (of_nat k)) [0..<unat m] s"
  using for_loop_fold_from [of 0 m body s] by simp

lemma for_loop_invariant:
  assumes "P 0 s" "\<And>k s. k < unat m \<Longrightarrow> P k s \<Longrightarrow> P (Suc k) (body (of_nat k) s)"
  shows "P (unat m) (for_loop 0 m body s)"
proof -
  have "n \<le> unat m \<Longrightarrow> P n (fold (\<lambda>k. body (of_nat k)) [0..<n] s)" for n
  proof (induction n)
    case 0
    then show ?case using assms(1) by simp
  next
    case (Suc n)
    then show ?case using assms(2) [of n] by simp
  qed
  then show ?thesis by (simp add: for_loop_fold)
qed

subsection \<open>Construction and configured states\<close>

lemma generate_pn_sequence_fields:
  "length (pn_sequence (generate_pn_sequence L k s)) = length (pn_sequence s)"
  "mod_header (generate_pn_sequence L k s) = mod_header s"
  "header (generate_pn_sequence L k s) = header s"
  "header_enc (generate_pn_sequence L k s) = header_enc s"
  "header_sym (generate_pn_sequence L k s) = header_sym s"
  "header_samples (generate_pn_sequence L k s) = header_samples s"
  "pnsequence_len (generate_pn_sequence L k s) = pnsequence_len s"
  "realloc_log (generate_pn_sequence L k s) = realloc_log s"
  by (simp_all add: generate_pn_sequence_def)

lemma create_object_initialised: "initialised L (create_object L)"
  unfolding initialised_def create_object_def Let_def
  by (simp add: for_loop_preserves [where g = "\<lambda>s. length (pn_sequence s)"]
      for_loop_preserves [where g = header] for_loop_preserves [where g = header_enc]
      for_loop_preserves [where g = header_sym] for_loop_preserves [where g = header_samples]
      for_loop_preserves [where g = pnsequence_len]
      generate_pn_sequence_fields)

lemma create_eq:
  "flexframegen_create L props_in =
     flexframegen_setprops L (create_object L)
       (case props_in of Some p \<Rightarrow> p | None \<Rightarrow> flexframegenprops_default L)"
proof -
  let ?p = "case props_in of Some p \<Rightarrow> p | None \<Rightarrow> flexframegenprops_default L"
  have c: "flexframegen_create L props_in =
      bind_result (flexframegen_setprops L (create_object L) ?p)
        (flexframegen_configure_payload_buffers L)"
    by (simp add: flexframegen_create_def split: option.splits)
  show ?thesis
  proof (cases "flexframegen_setprops L (create_object L) ?p")
    case (Return fg)
    have "configured L fg"
      by (rule setprops_Return(12) [OF Return create_object_initialised])
    then show ?thesis using Return c by (simp add: configured_configure)
  next
    case (Halt e fg)
    then show ?thesis using c by simp
  qed
qed

lemma create_Return:
  assumes "flexframegen_create L props_in = Return fg"
  shows "configured L fg"
  using assms setprops_Return(12) [OF _ create_object_initialised] by (simp add: create_eq)

lemma configured_geometry:
  assumes "configured L fg"
  shows "frame_len fg = rampup_len (props fg) + phasing_len (props fg) + 64 + 256
            + num_payload_symbols fg + rampdn_len (props fg)"
    and "\<exists>q r. c_div (8 * payload_len (props fg)) (mod_bps (props fg)) = Some (q, r) \<and>
          num_payload_symbols fg = word_of_int (q + (if r \<noteq> 0 then 1 else 0))"
    and "mod_bps (props fg) \<noteq> 0"
proof -
  have c: "flexframegen_compute_frame_len fg = Return fg" and pn: "pnsequence_len fg = 64"
    using assms by (simp_all add: configured_def initialised_def)
  show "frame_len fg = rampup_len (props fg) + phasing_len (props fg) + 64 + 256
            + num_payload_symbols fg + rampdn_len (props fg)"
    using compute_frame_len_fields(3) [OF c] pn by simp
  obtain qr where qr: "c_div (8 * payload_len (props fg)) (mod_bps (props fg)) = Some qr"
    and e: "Return (fg\<lparr>num_payload_symbols := word_of_int (fst qr + (if snd qr \<noteq> 0 then 1 else 0)),
          frame_len := rampup_len (props fg) + phasing_len (props fg) + pnsequence_len fg + 256
            + word_of_int (fst qr + (if snd qr \<noteq> 0 then 1 else 0)) + rampdn_len (props fg)\<rparr>) = Return fg"
    using c by (auto simp: compute_frame_len_eq split: option.splits)
  have "num_payload_symbols (fg\<lparr>num_payload_symbols := word_of_int (fst qr + (if snd qr \<noteq> 0 then 1 else 0)),
          frame_len := rampup_len (props fg) + phasing_len (props fg) + pnsequence_len fg + 256
            + word_of_int (fst qr + (if snd qr \<noteq> 0 then 1 else 0)) + rampdn_len (props fg)\<rparr>)
        = num_payload_symbols fg"
    using e by simp
  then have "num_payload_symbols fg = word_of_int (fst qr + (if snd qr \<noteq> 0 then 1 else 0))"
    by simp
  then show "\<exists>q r. c_div (8 * payload_len (props fg)) (mod_bps (props fg)) = Some (q, r) \<and>
          num_payload_symbols fg = word_of_int (q + (if r \<noteq> 0 then 1 else 0))"
    using qr by (cases qr) auto
  show "mod_bps (props fg) \<noteq> 0"
    using qr by (auto simp: c_div_def Let_def split: if_splits)
qed

subsection \<open>The frame length\<close>

lemma setprops_geometry:
  assumes "mod_bps p \<noteq> 0" "c_div (8 * payload_len p) (mod_bps p) = Some (q, r)"
    "initialised L fg0"
  shows "\<exists>fg. flexframegen_setprops L fg0 p = Return fg \<and> configured L fg \<and> props fg = p \<and>
     num_payload_symbols fg = word_of_int (q + (if r \<noteq> 0 then 1 else 0)) \<and>
     frame_len fg = rampup_len p + phasing_len p + 64 + 256 + num_payload_symbols fg + rampdn_len p"
proof -
  have "returns (flexframegen_setprops L fg0 p)" using assms(1,2) by (simp add: setprops_returns)
  then obtain fg where fg: "flexframegen_setprops L fg0 p = Return fg"
    by (cases "flexframegen_setprops L fg0 p") simp_all
  have c: "configured L fg" by (rule setprops_Return(12) [OF fg assms(3)])
  have p: "props fg = p" by (rule setprops_Return(2) [OF fg])
  show ?thesis using fg c p configured_geometry(1,2) [OF c] assms(2) by auto
qed

lemma create_geometry:
  assumes "mod_bps p \<noteq> 0" "c_div (8 * payload_len p) (mod_bps p) = Some (q, r)"
    "p = (case props_in of Some p' \<Rightarrow> p' | None \<Rightarrow> flexframegenprops_default L)"
  shows "\<exists>fg. flexframegen_create L props_in = Return fg \<and> configured L fg \<and> props fg = p \<and>
     num_payload_symbols fg = word_of_int (q + (if r \<noteq> 0 then 1 else 0)) \<and>
     frame_len fg = rampup_len p + phasing_len p + 64 + 256 + num_payload_symbols fg + rampdn_len p"
  using setprops_geometry [OF assms(1,2) create_object_initialised] assms(3)
  by (simp add: create_eq)

lemma unat_sum6_mod:
  "unat (a + b + 64 + 256 + c + d :: uint)
     = (unat a + unat b + 64 + 256 + unat c + unat d) mod 4294967296"
proof -
  have "a + b + 64 + 256 + c + d = (of_nat (unat a + unat b + 64 + 256 + unat c + unat d) :: uint)"
    by simp
  then show ?thesis by (simp only: unat_of_nat) simp
qed

lemma unat_sum6:
  "unat a + unat b + 64 + 256 + unat c + unat d < 4294967296 \<Longrightarrow>
   unat (a + b + 64 + 256 + c + d :: uint) = unat a + unat b + 64 + 256 + unat c + unat d"
  by (simp only: unat_sum6_mod mod_less)

lemma create_state:
  assumes "mod_bps p \<noteq> 0" "c_div (8 * payload_len p) (mod_bps p) = Some (q, r)"
  shows "returns (flexframegen_create L (Some p))"
    and "num_payload_symbols (state_of (flexframegen_create L (Some p)))
           = word_of_int (q + (if r \<noteq> 0 then 1 else 0))"
    and "frame_len (state_of (flexframegen_create L (Some p)))
           = rampup_len p + phasing_len p + 64 + 256
             + word_of_int (q + (if r \<noteq> 0 then 1 else 0)) + rampdn_len p"
    and "configured L (state_of (flexframegen_create L (Some p)))"
    and "props (state_of (flexframegen_create L (Some p))) = p"
  using create_geometry [OF assms, where props_in = "Some p" and L = L] by auto

subsection \<open>Buffer sizes\<close>

lemma configure_log_fields:
  "realloc_log (configure_payload L fg) = realloc_log fg @
     (if payload_numalloc fg \<noteq> payload_len (props fg)
      then [(Payload, payload_len (props fg))] else [])"
  "realloc_log (configure_payload_sym L fg) = realloc_log fg @
     (if payload_sym_numalloc fg \<noteq> num_payload_symbols fg
      then [(Payload_sym, num_payload_symbols fg)] else [])"
  "realloc_log (configure_payload_samples L fg) = realloc_log fg @
     (if payload_samples_numalloc fg \<noteq> num_payload_symbols fg
      then [(Payload_samples, num_payload_symbols fg)] else [])"
  by (simp_all add: configure_payload_def configure_payload_sym_def configure_payload_samples_def)

lemma configure_log:
  assumes "flexframegen_configure_payload_buffers L fg = Return fg'"
  shows "realloc_log fg' = realloc_log fg
     @ (if payload_numalloc fg \<noteq> payload_len (props fg')
        then [(Payload, payload_len (props fg'))] else [])
     @ (if payload_sym_numalloc fg \<noteq> num_payload_symbols fg'
        then [(Payload_sym, num_payload_symbols fg')] else [])
     @ (if payload_samples_numalloc fg \<noteq> num_payload_symbols fg'
        then [(Payload_samples, num_payload_symbols fg')] else [])"
proof -
  obtain s where s: "flexframegen_compute_frame_len fg = Return s"
    and fg': "fg' = configure_payload_samples L (configure_payload_sym L (configure_payload L s))"
    using assms by (auto simp: configure_eq split: result.splits)
  note f = compute_frame_len_fields [OF s]
  have n: "num_payload_symbols fg' = num_payload_symbols s" and p: "props fg' = props fg"
    by (simp_all add: fg' f)
  show ?thesis
    unfolding n p by (simp add: fg' configure_log_fields f)
qed

lemma setprops_twice:
  assumes "flexframegen_setprops L fg p = Return fg1"
  shows "flexframegen_setprops L fg1 p = Return fg1"
proof -
  let ?fg = "fg\<lparr>props := p, mod_payload := Modem_create (mod_scheme p) (mod_bps p)\<rparr>"
  have nz: "mod_bps p \<noteq> 0" by (rule setprops_Return(1) [OF assms])
  then have c: "flexframegen_configure_payload_buffers L ?fg = Return fg1"
    using assms by (simp add: setprops_eq)
  note r = configure_Return [OF c]
  have same: "fg1\<lparr>props := p, mod_payload := Modem_create (mod_scheme p) (mod_bps p)\<rparr> = fg1"
    using setprops_Return(2,6) [OF assms] by simp
  have "flexframegen_configure_payload_buffers L fg1 = Return fg1"
    using r by (simp add: configure_eq configure_noop)
  then show ?thesis using nz by (simp add: setprops_eq same)
qed

subsection \<open>The header record\<close>

lemma mask_ff: "(0xff :: uint) = mask 8" by (simp add: mask_eq_exp_minus_1)

lemma mask_f0: "(0xf0 :: uint) = push_bit 4 (mask 4)" by (simp add: mask_eq_exp_minus_1)

lemma mask_0f: "(0x0f :: uint) = mask 4" by (simp add: mask_eq_exp_minus_1)

lemma ucast_and_ff: "(ucast ((w::uint) AND 0xff) :: uchar) = ucast w"
  unfolding mask_ff by (rule bit_word_eqI) (auto simp: bit_simps)

lemma pack_scheme: "(ucast (push_bit 4 (s::uint) AND 0xf0) :: uchar) = push_bit 4 (ucast s)"
  unfolding mask_f0 by (rule bit_word_eqI) (auto simp: bit_simps)

lemma pack_depth: "(ucast ((d::uint) AND 0x0f) :: uchar) = take_bit 4 (ucast d)"
  unfolding mask_0f by (rule bit_word_eqI) (auto simp: bit_simps)

lemma list15:
  assumes "length (xs :: 'a list) = 15"
  obtains a0 a1 a2 a3 a4 a5 a6 a7 a8 a9 a10 a11 a12 a13 a14
  where "xs = [a0, a1, a2, a3, a4, a5, a6, a7, a8, a9, a10, a11, a12, a13, a14]"
  using assms by (auto simp: numeral_eq_Suc length_Suc_conv)

lemma header_record:
  assumes "length (header fg) = 15"
  shows "header (header_compute_crc L (header_add_modulation (header_add_payload_length fg)))
     = spec_header_record L (header fg) (props fg)"
    and "take 11 (header (header_add_modulation (header_add_payload_length fg)))
     = spec_header_prefix (header fg) (props fg)"
proof -
  obtain a0 a1 a2 a3 a4 a5 a6 a7 a8 a9 a10 a11 a12 a13 a14
    where h: "header fg = [a0, a1, a2, a3, a4, a5, a6, a7, a8, a9, a10, a11, a12, a13, a14]"
    using assms by (rule list15)
  show "take 11 (header (header_add_modulation (header_add_payload_length fg)))
     = spec_header_prefix (header fg) (props fg)"
    by (simp add: header_add_modulation_def header_add_payload_length_def Let_def h
        spec_header_prefix_def ucast_and_ff pack_scheme pack_depth)
  show "header (header_compute_crc L (header_add_modulation (header_add_payload_length fg)))
     = spec_header_record L (header fg) (props fg)"
    by (simp add: header_compute_crc_def header_add_modulation_def header_add_payload_length_def
        Let_def h spec_header_record_def spec_header_prefix_def ucast_and_ff pack_scheme pack_depth)
qed

lemma unat_ucast_uchar: "unat (ucast (w::uint) :: uchar) = unat w mod 256"
  by (simp add: unsigned_ucast_eq take_bit_eq_mod)

lemma unat_length_field:
  "256 * unat (ucast (drop_bit 8 (w::uint)) :: uchar) + unat (ucast w :: uchar) = unat w mod 65536"
proof -
  have "unat (ucast (drop_bit 8 w) :: uchar) = (unat w div 256) mod 256"
    by (simp add: unat_ucast_uchar drop_bit_eq_div unat_div)
  moreover have "unat w mod (256 * 256) = 256 * ((unat w div 256) mod 256) + unat w mod 256"
    by (rule mod_mult2_eq)
  ultimately show ?thesis by (simp add: unat_ucast_uchar)
qed

lemma unat_packed_field:
  "unat (push_bit 4 (ucast (s::uint)) OR take_bit 4 (ucast (d::uint)) :: uchar)
     = 16 * (unat s mod 16) + unat d mod 16"
proof -
  let ?a = "push_bit 4 (ucast s) :: uchar" and ?b = "take_bit 4 (ucast d) :: uchar"
  have or: "?a + ?b = ?a OR ?b"
    by (rule disjunctive_add) (auto simp: bit_simps)
  have a: "unat ?a = 16 * (unat s mod 16)"
  proof -
    have "?a = ucast s * 16" by (simp add: push_bit_eq_mult)
    moreover have "unat (ucast s * 16 :: uchar)
        = (unat (ucast s :: uchar) * unat (16 :: uchar)) mod 2 ^ LENGTH(8)"
      by (rule unat_word_ariths(2))
    ultimately have "unat ?a = ((unat s mod 256) * 16) mod 256"
      by (simp add: unat_ucast_uchar)
    also have "\<dots> = (unat s * 16) mod 256" by (rule mod_mult_left_eq)
    also have "\<dots> = (16 * unat s) mod (16 * 16)" by (simp add: mult.commute)
    also have "\<dots> = 16 * (unat s mod 16)" by (simp only: mult_mod_right)
    finally show ?thesis .
  qed
  have b: "unat ?b = unat d mod 16"
  proof -
    have "unat ?b = (unat d mod 256) mod 16"
      by (simp add: take_bit_eq_mod unat_mod unat_ucast_uchar)
    also have "\<dots> = unat d mod 16" by (rule mod_mod_cancel) simp
    finally show ?thesis .
  qed
  have "unat (?a + ?b) = (unat ?a + unat ?b) mod 2 ^ LENGTH(8)"
    by (rule unat_word_ariths(1))
  moreover have "unat s mod 16 < 16" "unat d mod 16 < 16" by simp_all
  then have "16 * (unat s mod 16) + unat d mod 16 < 256" by linarith
  ultimately have "unat (?a + ?b) = 16 * (unat s mod 16) + unat d mod 16"
    by (simp add: a b)
  then show ?thesis by (simp only: or)
qed

subsection \<open>The header encoder\<close>



lemma c_div_None_iff:
  "c_div a b = None \<longleftrightarrow> b = 0 \<or> (a = 0x80000000 \<and> b = 0xffffffff)"
proof -
  have 1: "sint b = 0 \<longleftrightarrow> b = 0" by (rule signed_eq_0_iff)
  have 2: "sint a = - (2 ^ 31) \<longleftrightarrow> a = 0x80000000"
    using word_eq_iff_signed [where 'a = int, of a "0x80000000"] by simp
  have 3: "sint b = - 1 \<longleftrightarrow> b = 0xffffffff"
    using word_eq_iff_signed [where 'a = int, of b "0xffffffff"] by simp
  show ?thesis unfolding c_div_def Let_def by (simp only: 1 2 3 split: if_splits) simp
qed


lemma length_store [simp]: "length (store new buf) = length buf"
  by (simp add: store_def)

lemma length_spec_header_record [simp]: "8 \<le> length content \<Longrightarrow> length (spec_header_record L content p) = 15"
  by (simp add: spec_header_record_def spec_header_prefix_def Let_def)

text \<open>The header encoder changes the header buffers only.\<close>

lemma header_stage_comp:
  assumes "\<And>s. f s = s\<lparr>header := header (f s), header_enc := header_enc (f s)\<rparr>"
    and "\<And>s. g s = s\<lparr>header := header (g s), header_enc := header_enc (g s)\<rparr>"
  shows "g (f s) = s\<lparr>header := header (g (f s)), header_enc := header_enc (g (f s))\<rparr>"
proof -
  have "g (f s) = (f s)\<lparr>header := header (g (f s)), header_enc := header_enc (g (f s))\<rparr>"
    by (rule assms(2))
  also have "\<dots> = (s\<lparr>header := header (f s), header_enc := header_enc (f s)\<rparr>)
      \<lparr>header := header (g (f s)), header_enc := header_enc (g (f s))\<rparr>"
    using assms(1) [of s] by simp
  finally show ?thesis by simp
qed

lemma header_stage_forms:
  "header_add_payload_length s = s\<lparr>header := header (header_add_payload_length s),
     header_enc := header_enc (header_add_payload_length s)\<rparr>"
  "header_add_modulation s = s\<lparr>header := header (header_add_modulation s),
     header_enc := header_enc (header_add_modulation s)\<rparr>"
  "header_compute_crc L s = s\<lparr>header := header (header_compute_crc L s),
     header_enc := header_enc (header_compute_crc L s)\<rparr>"
  "header_scramble L s = s\<lparr>header := header (header_scramble L s),
     header_enc := header_enc (header_scramble L s)\<rparr>"
  "header_run_encoder L s = s\<lparr>header := header (header_run_encoder L s),
     header_enc := header_enc (header_run_encoder L s)\<rparr>"
  "header_interleave L s = s\<lparr>header := header (header_interleave L s),
     header_enc := header_enc (header_interleave L s)\<rparr>"
  by (simp_all add: header_add_payload_length_def header_add_modulation_def
      header_compute_crc_def header_scramble_def header_run_encoder_def header_interleave_def
      Let_def)

lemma encode_header_form:
  "flexframegen_encode_header L fg =
     fg\<lparr>header := header (flexframegen_encode_header L fg),
        header_enc := header_enc (flexframegen_encode_header L fg)\<rparr>"
proof -
  let ?f1 = "header_add_payload_length" and ?f2 = "header_add_modulation"
    and ?f3 = "header_compute_crc L" and ?f4 = "header_scramble L"
    and ?f5 = "header_run_encoder L" and ?f6 = "header_interleave L"
  note c2 = header_stage_comp [of ?f1 ?f2, OF header_stage_forms(1,2)]
  note c3 = header_stage_comp [of "\<lambda>s. ?f2 (?f1 s)" ?f3, OF c2 header_stage_forms(3)]
  note c4 = header_stage_comp [of "\<lambda>s. ?f3 (?f2 (?f1 s))" ?f4, OF c3 header_stage_forms(4)]
  note c5 = header_stage_comp [of "\<lambda>s. ?f4 (?f3 (?f2 (?f1 s)))" ?f5, OF c4 header_stage_forms(5)]
  note c6 = header_stage_comp [of "\<lambda>s. ?f5 (?f4 (?f3 (?f2 (?f1 s))))" ?f6, OF c5 header_stage_forms(6)]
  show ?thesis unfolding flexframegen_encode_header_def Let_def by (rule c6)
qed

lemma header_update_fields:
  assumes "s' = s\<lparr>header := h, header_enc := e\<rparr>"
  shows "props s' = props s"
    "num_payload_symbols s' = num_payload_symbols s"
    "frame_len s' = frame_len s"
    "pnsequence_len s' = pnsequence_len s"
    "payload_numalloc s' = payload_numalloc s"
    "payload_sym_numalloc s' = payload_sym_numalloc s"
    "payload_samples_numalloc s' = payload_samples_numalloc s"
    "mod_header s' = mod_header s"
    "mod_payload s' = mod_payload s"
    "pn_sequence s' = pn_sequence s"
    "header_sym s' = header_sym s"
    "header_samples s' = header_samples s"
    "payload s' = payload s"
    "payload_sym s' = payload_sym s"
    "payload_samples s' = payload_samples s"
    "realloc_log s' = realloc_log s"
  by (simp_all add: assms)

lemmas encode_header_fields [simp] = header_update_fields [OF encode_header_form]

lemma header_stage_buffers:
  "header_enc (header_add_payload_length s) = header_enc s"
  "header_enc (header_add_modulation s) = header_enc s"
  "header_enc (header_compute_crc L s) = header_enc s"
  "header_enc (header_scramble L s) = header_enc s"
  "header (header_scramble L s) = store (scramble_data L (take 15 (header s))) (header s)"
  "header (header_run_encoder L s) = header s"
  "header_enc (header_run_encoder L s) =
     (let encoded = store (fec_encode L (take 15 (header s))) (header_enc s)
      in if h74_padding L then encoded[30 := 0xa7, 31 := 0x9e] else encoded)"
  "header (header_interleave L s) = header s"
  "header_enc (header_interleave L s) =
     store (interleaver_encode L (take 32 (header_enc s))) (header_enc s)"
  by (simp_all add: header_add_payload_length_def header_add_modulation_def
      header_compute_crc_def header_scramble_def header_run_encoder_def header_interleave_def
      Let_def)

text \<open>The stages of the header encoder, each applied to the result of the one before.\<close>

lemma encode_header_stages:
  assumes "length (header fg) = 15"
  shows "header (flexframegen_encode_header L fg)
           = store (scramble_data L (spec_header_record L (header fg) (props fg)))
               (spec_header_record L (header fg) (props fg))"
    and "header_enc (flexframegen_encode_header L fg)
           = (let encoded = store (fec_encode L (header (flexframegen_encode_header L fg))) (header_enc fg);
                  padded = (if h74_padding L then encoded[30 := 0xa7, 31 := 0x9e] else encoded)
              in store (interleaver_encode L (take 32 padded)) padded)"
proof -
  let ?r = "header_compute_crc L (header_add_modulation (header_add_payload_length fg))"
  have r: "header ?r = spec_header_record L (header fg) (props fg)"
    by (rule header_record(1) [OF assms])
  have l: "length (header ?r) = 15" using assms by (simp add: r)
  have e: "header_enc ?r = header_enc fg" by (simp add: header_stage_buffers)
  have h: "header (flexframegen_encode_header L fg)
      = store (scramble_data L (take 15 (header ?r))) (header ?r)"
    unfolding flexframegen_encode_header_def Let_def by (simp add: header_stage_buffers)
  then show h': "header (flexframegen_encode_header L fg)
           = store (scramble_data L (spec_header_record L (header fg) (props fg)))
               (spec_header_record L (header fg) (props fg))"
    using l by (simp add: r)
  let ?s = "header_scramble L ?r"
  have hs: "header ?s = header (flexframegen_encode_header L fg)"
    by (simp only: h header_stage_buffers)
  have "length (header ?s) = 15" using l by (simp add: header_stage_buffers)
  then have t: "take 15 (header ?s) = header (flexframegen_encode_header L fg)"
    by (simp add: hs)
  have es: "header_enc ?s = header_enc fg" by (simp only: header_stage_buffers e)
  have "header_enc (flexframegen_encode_header L fg)
      = header_enc (header_interleave L (header_run_encoder L ?s))"
    by (simp only: flexframegen_encode_header_def Let_def)
  also have "\<dots> = store (interleaver_encode L (take 32 (header_enc (header_run_encoder L ?s))))
      (header_enc (header_run_encoder L ?s))"
    by (simp only: header_stage_buffers(9))
  also have "header_enc (header_run_encoder L ?s)
      = (let encoded = store (fec_encode L (header (flexframegen_encode_header L fg))) (header_enc fg)
         in if h74_padding L then encoded[30 := 0xa7, 31 := 0x9e] else encoded)"
    by (simp only: header_stage_buffers(7) t es)
  finally show "header_enc (flexframegen_encode_header L fg)
           = (let encoded = store (fec_encode L (header (flexframegen_encode_header L fg))) (header_enc fg);
                  padded = (if h74_padding L then encoded[30 := 0xa7, 31 := 0x9e] else encoded)
              in store (interleaver_encode L (take 32 padded)) padded)"
    by (simp only: Let_def)
qed


subsection \<open>Created generators\<close>

lemma returns_eq: "returns r \<Longrightarrow> r = Return (state_of r)"
  by (cases r) simp_all

lemma create_default_state:
  "returns (flexframegen_create L None)"
  "configured L (state_of (flexframegen_create L None))"
  "props (state_of (flexframegen_create L None)) = flexframegenprops_default L"
proof -
  have d: "c_div (8 * payload_len (flexframegenprops_default L)) (mod_bps (flexframegenprops_default L))
      = Some (0, 0)"
    by (simp add: flexframegenprops_default_def c_div_def)
  have nz: "mod_bps (flexframegenprops_default L) \<noteq> 0"
    by (simp add: flexframegenprops_default_def)
  from create_geometry [OF nz d, where props_in = None and L = L]
  show "returns (flexframegen_create L None)"
    "configured L (state_of (flexframegen_create L None))"
    "props (state_of (flexframegen_create L None)) = flexframegenprops_default L"
    by auto
qed

lemma configured_lengths:
  assumes "configured L fg"
  shows "length (header fg) = 15" "length (header_enc fg) = 32" "length (header_sym fg) = 256"
    "length (header_samples fg) = 256" "length (pn_sequence fg) = 64"
    "length (payload fg) = unat (payload_len (props fg))"
    "length (payload_sym fg) = unat (num_payload_symbols fg)"
    "length (payload_samples fg) = unat (num_payload_symbols fg)"
    "mod_header fg = Modem_create (MOD_BPSK L) 1"
  using assms by (simp_all add: configured_def initialised_def)

subsection \<open>Header modulation\<close>

lemma unat_index: "k < 32 \<Longrightarrow> j < 8 \<Longrightarrow> unat (8 * (of_nat k :: uint) + of_nat j) = 8 * k + j"
proof -
  assume "k < 32" "j < 8"
  then have b: "8 * k + j < 2 ^ LENGTH(32)" by simp
  have "8 * (of_nat k :: uint) + of_nat j = of_nat (8 * k + j)" by simp
  then show ?thesis using b by (simp only: unat_of_nat mod_less)
qed

lemma update8_at:
  assumes "n + 7 < length xs" "j < 8"
  shows "xs[n := v0, n + 1 := v1, n + 2 := v2, n + 3 := v3,
            n + 4 := v4, n + 5 := v5, n + 6 := v6, n + 7 := v7] ! (n + j)
         = [v0, v1, v2, v3, v4, v5, v6, v7] ! j"
proof -
  from assms(2) consider "j = 0" | "j = 1" | "j = 2" | "j = 3" | "j = 4" | "j = 5" | "j = 6" | "j = 7"
    by linarith
  then show ?thesis using assms(1) by cases (simp_all add: nth_list_update)
qed

lemma update8_other:
  assumes "idx < n \<or> n + 7 < idx"
  shows "xs[n := v0, n + 1 := v1, n + 2 := v2, n + 3 := v3,
            n + 4 := v4, n + 5 := v5, n + 6 := v6, n + 7 := v7] ! idx = xs ! idx"
  using assms by (auto simp: nth_list_update)

lemma update8_nth:
  assumes "length xs = 256" "k < 32" "idx < 256"
  shows "xs[8 * k := v0, 8 * k + 1 := v1, 8 * k + 2 := v2, 8 * k + 3 := v3,
            8 * k + 4 := v4, 8 * k + 5 := v5, 8 * k + 6 := v6, 8 * k + 7 := v7] ! idx
         = (if idx div 8 = k then [v0, v1, v2, v3, v4, v5, v6, v7] ! (idx mod 8) else xs ! idx)"
proof (cases "idx div 8 = k")
  case True
  have idx: "idx = 8 * k + idx mod 8" using True mult_div_mod_eq [of 8 idx] by simp
  have "8 * k + 7 < length xs" using assms(1,2) by simp
  then have "xs[8 * k := v0, 8 * k + 1 := v1, 8 * k + 2 := v2, 8 * k + 3 := v3,
            8 * k + 4 := v4, 8 * k + 5 := v5, 8 * k + 6 := v6, 8 * k + 7 := v7] ! (8 * k + idx mod 8)
         = [v0, v1, v2, v3, v4, v5, v6, v7] ! (idx mod 8)"
    by (rule update8_at) simp
  then show ?thesis using True idx by (simp only: if_True) simp
next
  case False
  then have "idx < 8 * k \<or> 8 * k + 7 < idx" by arith
  then have "xs[8 * k := v0, 8 * k + 1 := v1, 8 * k + 2 := v2, 8 * k + 3 := v3,
            8 * k + 4 := v4, 8 * k + 5 := v5, 8 * k + 6 := v6, 8 * k + 7 := v7] ! idx = xs ! idx"
    by (rule update8_other)
  then show ?thesis using False by (simp only: if_False)
qed

lemma header_bits_nth:
  "j < 8 \<Longrightarrow>
   [drop_bit 7 b AND 1, drop_bit 6 b AND 1, drop_bit 5 b AND 1, drop_bit 4 b AND 1,
    drop_bit 3 b AND 1, drop_bit 2 b AND 1, drop_bit 1 b AND 1, b AND (1::uchar)] ! j
   = drop_bit (7 - j) b AND 1"
proof -
  assume "j < 8"
  then consider "j = 0" | "j = 1" | "j = 2" | "j = 3" | "j = 4" | "j = 5" | "j = 6" | "j = 7"
    by linarith
  then show ?thesis by cases simp_all
qed

lemma unpack_header_symbols_step:
  assumes "length (header_sym s) = 256" "k < 32"
  shows "unpack_header_symbols (of_nat k) s = s\<lparr>header_sym := header_sym (unpack_header_symbols (of_nat k) s)\<rparr>"
    and "length (header_sym (unpack_header_symbols (of_nat k) s)) = 256"
    and "idx < 256 \<Longrightarrow> header_sym (unpack_header_symbols (of_nat k) s) ! idx
       = (if idx div 8 = k then header_bit (header_enc s) idx else header_sym s ! idx)"
proof -
  have u: "unat (of_nat k :: uint) = k" using assms(2) by (simp add: unat_of_nat)
  have i: "unat (8 * (of_nat k :: uint) + 0) = 8 * k" "unat (8 * (of_nat k :: uint) + 1) = 8 * k + 1"
    "unat (8 * (of_nat k :: uint) + 2) = 8 * k + 2" "unat (8 * (of_nat k :: uint) + 3) = 8 * k + 3"
    "unat (8 * (of_nat k :: uint) + 4) = 8 * k + 4" "unat (8 * (of_nat k :: uint) + 5) = 8 * k + 5"
    "unat (8 * (of_nat k :: uint) + 6) = 8 * k + 6" "unat (8 * (of_nat k :: uint) + 7) = 8 * k + 7"
    using unat_index [OF assms(2), of 0] unat_index [OF assms(2), of 1]
      unat_index [OF assms(2), of 2] unat_index [OF assms(2), of 3]
      unat_index [OF assms(2), of 4] unat_index [OF assms(2), of 5]
      unat_index [OF assms(2), of 6] unat_index [OF assms(2), of 7]
    by simp_all
  show "unpack_header_symbols (of_nat k) s = s\<lparr>header_sym := header_sym (unpack_header_symbols (of_nat k) s)\<rparr>"
    by (simp add: unpack_header_symbols_def Let_def)
  show "length (header_sym (unpack_header_symbols (of_nat k) s)) = 256"
    using assms(1) by (simp add: unpack_header_symbols_def Let_def)
  assume idx: "idx < 256"
  have "header_sym (unpack_header_symbols (of_nat k) s) ! idx
      = (if idx div 8 = k
         then [drop_bit 7 (header_enc s ! k) AND 1, drop_bit 6 (header_enc s ! k) AND 1,
               drop_bit 5 (header_enc s ! k) AND 1, drop_bit 4 (header_enc s ! k) AND 1,
               drop_bit 3 (header_enc s ! k) AND 1, drop_bit 2 (header_enc s ! k) AND 1,
               drop_bit 1 (header_enc s ! k) AND 1, header_enc s ! k AND 1] ! (idx mod 8)
         else header_sym s ! idx)"
    unfolding unpack_header_symbols_def Let_def i u
    using update8_nth [OF assms(1,2) idx] by simp
  moreover have "[drop_bit 7 (header_enc s ! k) AND 1, drop_bit 6 (header_enc s ! k) AND 1,
               drop_bit 5 (header_enc s ! k) AND 1, drop_bit 4 (header_enc s ! k) AND 1,
               drop_bit 3 (header_enc s ! k) AND 1, drop_bit 2 (header_enc s ! k) AND 1,
               drop_bit 1 (header_enc s ! k) AND 1, header_enc s ! k AND 1] ! (idx mod 8)
      = drop_bit (7 - idx mod 8) (header_enc s ! k) AND 1"
    by (rule header_bits_nth) simp
  ultimately have "header_sym (unpack_header_symbols (of_nat k) s) ! idx
      = (if idx div 8 = k then drop_bit (7 - idx mod 8) (header_enc s ! k) AND 1
         else header_sym s ! idx)"
    by (simp only:)
  then show "header_sym (unpack_header_symbols (of_nat k) s) ! idx
       = (if idx div 8 = k then header_bit (header_enc s) idx else header_sym s ! idx)"
    by (cases "idx div 8 = k") (simp_all only: header_bit_def if_True if_False)
qed

lemma div8_eq: "idx div 8 = (k::nat) \<Longrightarrow> idx < 8 * Suc k \<and> \<not> idx < 8 * k"
proof -
  assume a: "idx div 8 = k"
  define r where "r = idx mod 8"
  have "idx = 8 * k + r" using a mult_div_mod_eq [of 8 idx] by (simp add: r_def)
  moreover have "r < 8" by (simp add: r_def)
  ultimately show ?thesis by simp
qed

lemma div8_neq: "idx div 8 \<noteq> (k::nat) \<Longrightarrow> idx < 8 * k \<longleftrightarrow> idx < 8 * Suc k"
proof -
  assume a: "idx div 8 \<noteq> k"
  define r where "r = idx mod 8"
  define q where "q = idx div 8"
  have i: "idx = 8 * q + r" using mult_div_mod_eq [of 8 idx] by (simp add: r_def q_def)
  have m: "r < 8" by (simp add: r_def)
  from a consider "q < k" | "k < q" unfolding q_def by linarith
  then show ?thesis
  proof cases
    case 1
    then show ?thesis using i m by simp
  next
    case 2
    then show ?thesis using i by simp
  qed
qed

lemma unpack_loop:
  assumes "length (header_sym fg) = 256"
  shows "\<exists>hs. for_loop 0 32 unpack_header_symbols fg = fg\<lparr>header_sym := hs\<rparr> \<and> length hs = 256 \<and>
           (\<forall>idx<256. hs ! idx = header_bit (header_enc fg) idx)"
proof -
  define P where "P k s \<longleftrightarrow> (\<exists>hs. s = fg\<lparr>header_sym := hs\<rparr> \<and> length hs = 256 \<and>
      (\<forall>idx<256. hs ! idx = (if idx < 8 * k then header_bit (header_enc fg) idx
                               else header_sym fg ! idx)))" for k s
  have 0: "P 0 fg" unfolding P_def using assms by (intro exI [of _ "header_sym fg"]) simp
  have step: "P (Suc k) (unpack_header_symbols (of_nat k) s)"
    if k: "k < unat (32::uint)" and p: "P k s" for k s
  proof -
    have k32: "k < 32" using k by simp
    obtain hs where s: "s = fg\<lparr>header_sym := hs\<rparr>" and l: "length hs = 256"
      and v: "\<forall>idx<256. hs ! idx = (if idx < 8 * k then header_bit (header_enc fg) idx
                               else header_sym fg ! idx)"
      using p unfolding P_def by blast
    have ls: "length (header_sym s) = 256" and es: "header_enc s = header_enc fg"
      and hs: "header_sym s = hs"
      using l by (simp_all add: s)
    let ?s' = "unpack_header_symbols (of_nat k) s"
    note st = unpack_header_symbols_step [OF ls k32]
    have "?s' = s\<lparr>header_sym := header_sym ?s'\<rparr>" by (rule st(1))
    then have 1: "?s' = fg\<lparr>header_sym := header_sym ?s'\<rparr>" by (simp add: s)
    have 3: "header_sym ?s' ! idx = (if idx < 8 * Suc k then header_bit (header_enc fg) idx
                               else header_sym fg ! idx)" if i: "idx < 256" for idx
    proof (cases "idx div 8 = k")
      case True
      then have "idx < 8 * Suc k" using div8_eq by blast
      then show ?thesis using st(3) [OF i] True by (simp add: es)
    next
      case False
      then have "idx < 8 * k \<longleftrightarrow> idx < 8 * Suc k" by (rule div8_neq)
      then show ?thesis using st(3) [OF i] False v i by (simp add: hs)
    qed
    show ?thesis unfolding P_def
      using 1 st(2) 3 by (intro exI [of _ "header_sym ?s'"]) blast
  qed
  have "P (unat (32::uint)) (for_loop 0 32 unpack_header_symbols fg)"
    by (rule for_loop_invariant [where P = P, OF 0 step])
  then show ?thesis unfolding P_def by auto
qed

lemma modulate_loop:
  assumes "length (header_samples fg) = 256"
  shows "\<exists>hx. for_loop 0 256 (modulate_header_symbol L) fg = fg\<lparr>header_samples := hx\<rparr> \<and>
           length hx = 256 \<and>
           (\<forall>idx<256. hx ! idx = modem_modulate L (mod_header fg) (header_sym fg ! idx))"
proof -
  define P where "P k s \<longleftrightarrow> (\<exists>hx. s = fg\<lparr>header_samples := hx\<rparr> \<and> length hx = 256 \<and>
      (\<forall>idx<256. hx ! idx = (if idx < k then modem_modulate L (mod_header fg) (header_sym fg ! idx)
                               else header_samples fg ! idx)))" for k s
  have 0: "P 0 fg" unfolding P_def using assms by (intro exI [of _ "header_samples fg"]) simp
  have step: "P (Suc k) (modulate_header_symbol L (of_nat k) s)"
    if k: "k < unat (256::uint)" and p: "P k s" for k s
  proof -
    have k256: "k < 256" using k by simp
    have u: "unat (of_nat k :: uint) = k" using k256 by (simp add: unat_of_nat)
    obtain hx where s: "s = fg\<lparr>header_samples := hx\<rparr>" and l: "length hx = 256"
      and v: "\<forall>idx<256. hx ! idx = (if idx < k then modem_modulate L (mod_header fg) (header_sym fg ! idx)
                               else header_samples fg ! idx)"
      using p unfolding P_def by blast
    let ?hx = "hx[k := modem_modulate L (mod_header fg) (header_sym fg ! k)]"
    have 1: "modulate_header_symbol L (of_nat k) s = fg\<lparr>header_samples := ?hx\<rparr>"
      by (simp add: modulate_header_symbol_def u s)
    have 3: "\<forall>idx<256. ?hx ! idx = (if idx < Suc k then modem_modulate L (mod_header fg) (header_sym fg ! idx)
                               else header_samples fg ! idx)"
      using v l k256 by (auto simp: nth_list_update less_Suc_eq)
    show ?thesis unfolding P_def
      using 1 l 3 by (intro exI [of _ ?hx]) simp
  qed
  have "P (unat (256::uint)) (for_loop 0 256 (modulate_header_symbol L) fg)"
    by (rule for_loop_invariant [where P = P, OF 0 step])
  then show ?thesis unfolding P_def by auto
qed

lemma modulate_header_result:
  assumes "length (header_sym fg) = 256" "length (header_samples fg) = 256"
  shows "\<exists>hs hx. flexframegen_modulate_header L fg = fg\<lparr>header_sym := hs, header_samples := hx\<rparr> \<and>
     length hs = 256 \<and> length hx = 256 \<and>
     (\<forall>k<256. hs ! k = header_bit (header_enc fg) k) \<and>
     (\<forall>k<256. hx ! k = modem_modulate L (mod_header fg) (header_bit (header_enc fg) k))"
proof -
  obtain hs where 1: "for_loop 0 32 unpack_header_symbols fg = fg\<lparr>header_sym := hs\<rparr>"
    and l1: "length hs = 256" and v1: "\<forall>idx<256. hs ! idx = header_bit (header_enc fg) idx"
    using unpack_loop [OF assms(1)] by blast
  let ?s = "fg\<lparr>header_sym := hs\<rparr>"
  have "length (header_samples ?s) = 256" using assms(2) by simp
  from modulate_loop [OF this, of L]
  obtain hx where 2: "for_loop 0 256 (modulate_header_symbol L) ?s = ?s\<lparr>header_samples := hx\<rparr>"
    and l2: "length hx = 256"
    and v2: "\<forall>idx<256. hx ! idx = modem_modulate L (mod_header ?s) (header_sym ?s ! idx)"
    by blast
  have "flexframegen_modulate_header L fg = fg\<lparr>header_sym := hs, header_samples := hx\<rparr>"
    by (simp add: flexframegen_modulate_header_def Let_def 1 2)
  moreover have "\<forall>k<256. hx ! k = modem_modulate L (mod_header fg) (header_bit (header_enc fg) k)"
    using v1 v2 by simp
  ultimately show ?thesis using l1 l2 v1 by blast
qed

subsection \<open>Frames\<close>

lemma write_loop:
  assumes "\<And>i n y. w i (n, y) = (n + 1, y @ [g i n])"
  shows "for_loop 0 m w (n, y)
     = (n + m, y @ map (\<lambda>k. g (of_nat k) (n + of_nat k)) [0..<unat m])"
proof -
  have "fold (\<lambda>k. w (of_nat k)) [0..<j] (n, y)
      = (n + of_nat j, y @ map (\<lambda>k. g (of_nat k) (n + of_nat k)) [0..<j])" for j
    by (induction j) (simp_all add: assms add.assoc)
  then show ?thesis by (simp add: for_loop_fold)
qed

lemma frame_loops:
  "for_loop 0 m (write_ramp_up p) (n, y)
     = (n + m, y @ map (\<lambda>k. ramp_up_sample p (of_nat k) (n + of_nat k)) [0..<unat m])"
  "for_loop 0 m write_phasing (n, y)
     = (n + m, y @ map (\<lambda>k. phasing_sample (n + of_nat k)) [0..<unat m])"
  "for_loop 0 m (write_pn_sequence fg) (n, y)
     = (n + m, y @ map (\<lambda>k. pn_sequence fg ! unat (of_nat k :: uint)) [0..<unat m])"
  "for_loop 0 m (write_ramp_dn p) (n, y)
     = (n + m, y @ map (\<lambda>k. ramp_dn_sample p (of_nat k)) [0..<unat m])"
  by (rule write_loop, simp add: write_ramp_up_def write_phasing_def write_pn_sequence_def
      write_ramp_dn_def)+

lemma pn_sequence_segment:
  assumes "length (pn_sequence fg) = 64"
  shows "map (\<lambda>k. pn_sequence fg ! unat (of_nat k :: uint)) [0..<unat (64::uint)] = pn_sequence fg"
proof -
  have "map (\<lambda>k. pn_sequence fg ! unat (of_nat k :: uint)) [0..<64] = map (\<lambda>k. pn_sequence fg ! k) [0..<64]"
    by (rule map_cong) (simp_all add: unat_of_nat)
  also have "\<dots> = pn_sequence fg" using assms map_nth [of "pn_sequence fg"] by simp
  finally show ?thesis by simp
qed

text \<open>The payload: the clear reaches outside the symbol buffer, or the three steps run.\<close>

lemma modulate_payload_loop:
  assumes "length (payload_sym fg) = unat (num_payload_symbols fg)"
    "length (payload_samples fg) = unat (num_payload_symbols fg)"
  shows "for_loop 0 (num_payload_symbols fg) (modulate_payload_symbol L) (Return fg)
     = Return (fg\<lparr>payload_samples := map (modem_modulate L (mod_payload fg)) (payload_sym fg)\<rparr>)"
proof -
  let ?N = "unat (num_payload_symbols fg)"
  define P where "P k r \<longleftrightarrow> (\<exists>px. r = Return (fg\<lparr>payload_samples := px\<rparr>) \<and> length px = ?N \<and>
      (\<forall>idx<?N. px ! idx = (if idx < k then modem_modulate L (mod_payload fg) (payload_sym fg ! idx)
                              else payload_samples fg ! idx)))" for k r
  have 0: "P 0 (Return fg)" unfolding P_def using assms(2)
    by (intro exI [of _ "payload_samples fg"]) simp
  have step: "P (Suc k) (modulate_payload_symbol L (of_nat k) r)"
    if k: "k < ?N" and p: "P k r" for k r
  proof -
    have "?N < 2 ^ LENGTH(32)" by (rule unsigned_less)
    then have u: "unat (of_nat k :: uint) = k" using k by (simp add: unat_of_nat)
    obtain px where r: "r = Return (fg\<lparr>payload_samples := px\<rparr>)" and l: "length px = ?N"
      and v: "\<forall>idx<?N. px ! idx = (if idx < k then modem_modulate L (mod_payload fg) (payload_sym fg ! idx)
                              else payload_samples fg ! idx)"
      using p unfolding P_def by blast
    let ?px = "px[k := modem_modulate L (mod_payload fg) (payload_sym fg ! k)]"
    have 1: "modulate_payload_symbol L (of_nat k) r = Return (fg\<lparr>payload_samples := ?px\<rparr>)"
      using k l assms(1) by (simp add: modulate_payload_symbol_def u r)
    have 3: "\<forall>idx<?N. ?px ! idx = (if idx < Suc k then modem_modulate L (mod_payload fg) (payload_sym fg ! idx)
                              else payload_samples fg ! idx)"
      using v l k by (auto simp: nth_list_update less_Suc_eq)
    show ?thesis unfolding P_def using 1 l 3 by (intro exI [of _ ?px]) simp
  qed
  have "P ?N (for_loop 0 (num_payload_symbols fg) (modulate_payload_symbol L) (Return fg))"
    by (rule for_loop_invariant [where P = P, OF 0 step])
  then obtain px where r: "for_loop 0 (num_payload_symbols fg) (modulate_payload_symbol L) (Return fg)
      = Return (fg\<lparr>payload_samples := px\<rparr>)" and l: "length px = ?N"
    and v: "\<forall>idx<?N. px ! idx = modem_modulate L (mod_payload fg) (payload_sym fg ! idx)"
    unfolding P_def by auto
  have "px = map (modem_modulate L (mod_payload fg)) (payload_sym fg)"
    using l v assms(1) by (intro nth_equalityI) simp_all
  then show ?thesis using r by simp
qed

lemma modulate_payload_result:
  assumes "length (payload_sym fg) = unat (num_payload_symbols fg)"
    "length (payload_samples fg) = unat (num_payload_symbols fg)"
  shows "flexframegen_modulate_payload L fg =
     (if unat (payload_len (props fg)) \<le> unat (num_payload_symbols fg)
      then let cleared = replicate (unat (payload_len (props fg))) 0
                           @ drop (unat (payload_len (props fg))) (payload_sym fg);
               repacked = store (repack_bytes L (payload fg) 8 (payload_len (props fg)) cleared
                             (mod_bps (props fg)) (num_payload_symbols fg)) cleared
           in Return (fg\<lparr>payload_sym := repacked,
                payload_samples := map (modem_modulate L (mod_payload fg)) repacked\<rparr>)
      else Halt Out_of_bounds fg)"
proof (cases "unat (payload_len (props fg)) \<le> unat (num_payload_symbols fg)")
  case True
  let ?c = "replicate (unat (payload_len (props fg))) 0
              @ drop (unat (payload_len (props fg))) (payload_sym fg)"
  let ?r = "store (repack_bytes L (payload fg) 8 (payload_len (props fg)) ?c
              (mod_bps (props fg)) (num_payload_symbols fg)) ?c"
  have c: "modulate_payload_clear fg = Return (fg\<lparr>payload_sym := ?c\<rparr>)"
    using True assms(1) by (simp add: modulate_payload_clear_def memset_def)
  have lc: "length ?c = unat (num_payload_symbols fg)" using True assms(1) by simp
  let ?s = "modulate_payload_repack L (fg\<lparr>payload_sym := ?c\<rparr>)"
  have s: "?s = fg\<lparr>payload_sym := ?r\<rparr>" by (simp add: modulate_payload_repack_def)
  have "length (payload_sym (fg\<lparr>payload_sym := ?r\<rparr>)) = unat (num_payload_symbols (fg\<lparr>payload_sym := ?r\<rparr>))"
    "length (payload_samples (fg\<lparr>payload_sym := ?r\<rparr>)) = unat (num_payload_symbols (fg\<lparr>payload_sym := ?r\<rparr>))"
    using lc assms(2) by (simp_all add: store_def)
  from modulate_payload_loop [OF this, of L]
  have "for_loop 0 (num_payload_symbols fg) (modulate_payload_symbol L) (Return (fg\<lparr>payload_sym := ?r\<rparr>))
      = Return (fg\<lparr>payload_sym := ?r, payload_samples := map (modem_modulate L (mod_payload fg)) ?r\<rparr>)"
    by simp
  then show ?thesis using True
    by (simp add: flexframegen_modulate_payload_def c s Let_def)
next
  case False
  then have "modulate_payload_clear fg = Halt Out_of_bounds fg"
    using assms(1) by (simp add: modulate_payload_clear_def memset_def)
  then show ?thesis using False by (simp add: flexframegen_modulate_payload_def)
qed

lemma configured_header_update:
  assumes "configured L fg" "length h = 15" "length e = 32" "length hs = 256" "length hx = 256"
  shows "configured L (fg\<lparr>header := h, header_enc := e, header_sym := hs, header_samples := hx\<rparr>)"
proof -
  let ?fg = "fg\<lparr>header := h, header_enc := e, header_sym := hs, header_samples := hx\<rparr>"
  have c: "flexframegen_compute_frame_len fg = Return fg" using assms(1) by (simp add: configured_def)
  have "flexframegen_compute_frame_len ?fg = Return ?fg"
    by (rule compute_frame_len_fix [OF _ _ _ _ c]) simp_all
  then show ?thesis using assms by (simp add: configured_def initialised_def)
qed

lemma configured_payload_update:
  assumes "configured L fg" "length pl = unat (payload_len (props fg))"
    "length ps = unat (num_payload_symbols fg)" "length px = unat (num_payload_symbols fg)"
  shows "configured L (fg\<lparr>payload := pl, payload_sym := ps, payload_samples := px\<rparr>)"
proof -
  let ?fg = "fg\<lparr>payload := pl, payload_sym := ps, payload_samples := px\<rparr>"
  have c: "flexframegen_compute_frame_len fg = Return fg" using assms(1) by (simp add: configured_def)
  have "flexframegen_compute_frame_len ?fg = Return ?fg"
    by (rule compute_frame_len_fix [OF _ _ _ _ c]) simp_all
  then show ?thesis using assms by (simp add: configured_def initialised_def)
qed

lemma copy_and_encode_header_result:
  assumes "configured L fg" "8 \<le> length header_in"
  shows "\<exists>h e hs hx. copy_and_encode_header L header_in (fg, (n, y))
       = Return (fg\<lparr>header := h, header_enc := e, header_sym := hs, header_samples := hx\<rparr>,
                 (n + 256, y @ hx)) \<and>
     length h = 15 \<and> length e = 32 \<and> length hs = 256 \<and> length hx = 256"
proof -
  note l = configured_lengths [OF assms(1)]
  let ?h0 = "take 8 header_in @ drop 8 (header fg)"
  let ?fg0 = "fg\<lparr>header := ?h0\<rparr>"
  let ?fg1 = "flexframegen_encode_header L ?fg0"
  have m: "memmove (header fg) header_in 8 = Some ?h0"
    using assms(2) l(1) by (simp add: memmove_def)
  have l0: "length (header ?fg0) = 15" using assms(2) l(1) by simp
  have f1: "?fg1 = ?fg0\<lparr>header := header ?fg1, header_enc := header_enc ?fg1\<rparr>"
    by (rule encode_header_form)
  have l1: "length (header ?fg1) = 15" "length (header_enc ?fg1) = 32"
    using encode_header_stages [OF l0, of L] l0 l(2) by (simp_all add: Let_def)
  have l1': "length (header_sym ?fg1) = 256" "length (header_samples ?fg1) = 256"
    using l(3,4) by simp_all
  obtain hs hx where r: "flexframegen_modulate_header L ?fg1 = ?fg1\<lparr>header_sym := hs, header_samples := hx\<rparr>"
    and ls: "length hs = 256" and lx: "length hx = 256"
    using modulate_header_result [OF l1', of L] by blast
  have "?fg1\<lparr>header_sym := hs, header_samples := hx\<rparr>
      = (?fg0\<lparr>header := header ?fg1, header_enc := header_enc ?fg1\<rparr>)\<lparr>header_sym := hs, header_samples := hx\<rparr>"
    using f1 by simp
  also have "\<dots> = fg\<lparr>header := header ?fg1, header_enc := header_enc ?fg1, header_sym := hs, header_samples := hx\<rparr>"
    by simp
  finally have r': "flexframegen_modulate_header L ?fg1
      = fg\<lparr>header := header ?fg1, header_enc := header_enc ?fg1, header_sym := hs, header_samples := hx\<rparr>"
    using r by simp
  have "copy_and_encode_header L header_in (fg, (n, y))
       = Return (fg\<lparr>header := header ?fg1, header_enc := header_enc ?fg1, header_sym := hs, header_samples := hx\<rparr>,
                 (n + 256, y @ hx))"
    using lx by (simp add: copy_and_encode_header_def m Let_def r')
  then show ?thesis using l1 ls lx by blast
qed

lemma copy_and_encode_header_fault:
  assumes "configured L fg" "\<not> 8 \<le> length header_in"
  shows "copy_and_encode_header L header_in (fg, f) = Halt Out_of_bounds (fg, f)"
  using assms(2) by (simp add: copy_and_encode_header_def memmove_def)


lemma copy_and_encode_payload_result:
  assumes "configured L fg"
  shows "copy_and_encode_payload L payload_in (fg, (n, y)) =
     (if unat (payload_len (props fg)) \<le> length payload_in
      then if unat (payload_len (props fg)) \<le> unat (num_payload_symbols fg)
           then let fg' = state_of (flexframegen_modulate_payload L
                            (fg\<lparr>payload := take (unat (payload_len (props fg))) payload_in\<rparr>))
                in Return (fg', (n + num_payload_symbols fg, y @ payload_samples fg'))
           else Halt Out_of_bounds
                  (fg\<lparr>payload := take (unat (payload_len (props fg))) payload_in\<rparr>, (n, y))
      else Halt Out_of_bounds (fg, (n, y)))"
proof -
  note l = configured_lengths [OF assms(1)]
  let ?k = "unat (payload_len (props fg))"
  let ?fg0 = "fg\<lparr>payload := take ?k payload_in\<rparr>"
  show ?thesis
  proof (cases "?k \<le> length payload_in")
    case True
    then have m: "memmove (payload fg) payload_in ?k = Some (take ?k payload_in)"
      using l(6) by (simp add: memmove_def)
    have l0: "length (payload_sym ?fg0) = unat (num_payload_symbols ?fg0)"
      "length (payload_samples ?fg0) = unat (num_payload_symbols ?fg0)"
      using l(7,8) by simp_all
    note r = modulate_payload_result [OF l0, of L]
    show ?thesis
    proof (cases "?k \<le> unat (num_payload_symbols fg)")
      case k: True
      then show ?thesis using True l(7,8)
        by (simp add: copy_and_encode_payload_def m r Let_def)
    next
      case False
      then show ?thesis using True
        by (simp add: copy_and_encode_payload_def m r)
    qed
  next
    case False
    then show ?thesis by (simp add: copy_and_encode_payload_def memmove_def)
  qed
qed

lemma modulate_payload_state:
  assumes "configured L fg" "length pl = unat (payload_len (props fg))"
    "unat (payload_len (props fg)) \<le> unat (num_payload_symbols fg)"
  shows "\<exists>ps px. state_of (flexframegen_modulate_payload L (fg\<lparr>payload := pl\<rparr>))
       = fg\<lparr>payload := pl, payload_sym := ps, payload_samples := px\<rparr> \<and>
     length ps = unat (num_payload_symbols fg) \<and> length px = unat (num_payload_symbols fg) \<and>
     px = map (modem_modulate L (mod_payload fg)) ps"
proof -
  note l = configured_lengths [OF assms(1)]
  let ?fg0 = "fg\<lparr>payload := pl\<rparr>"
  have l0: "length (payload_sym ?fg0) = unat (num_payload_symbols ?fg0)"
    "length (payload_samples ?fg0) = unat (num_payload_symbols ?fg0)"
    using l(7,8) by simp_all
  let ?c = "replicate (unat (payload_len (props fg))) 0
              @ drop (unat (payload_len (props fg))) (payload_sym fg)"
  let ?r = "store (repack_bytes L pl 8 (payload_len (props fg)) ?c
              (mod_bps (props fg)) (num_payload_symbols fg)) ?c"
  have "state_of (flexframegen_modulate_payload L ?fg0)
      = fg\<lparr>payload := pl, payload_sym := ?r,
           payload_samples := map (modem_modulate L (mod_payload fg)) ?r\<rparr>"
    using assms(3) by (simp add: modulate_payload_result [OF l0, of L] Let_def)
  moreover have "length ?r = unat (num_payload_symbols fg)"
    using assms(3) l(7) by simp
  ultimately show ?thesis
    by (intro exI [of _ ?r] exI [of _ "map (modem_modulate L (mod_payload fg)) ?r"]) simp
qed

lemma pn_sequence_segment':
  assumes "length (pn_sequence fg) = 64"
  shows "map (\<lambda>k. pn_sequence fg ! unat (of_nat k :: uint)) [0..<64] = pn_sequence fg"
  using pn_sequence_segment [OF assms] by simp

text \<open>
  What \<open>flexframegen_execute\<close> does on a configured generator, with an 8-byte header and
  a payload of the configured length, when the clear of the symbol buffer stays inside it.
\<close>

lemma execute_result:
  assumes "configured L fg" "8 \<le> length header_in"
    "unat (payload_len (props fg)) \<le> length payload_in"
    "unat (payload_len (props fg)) \<le> unat (num_payload_symbols fg)"
  shows "\<exists>h e hs hx ps px.
     flexframegen_execute L fg header_in payload_in
       = Return (fg\<lparr>header := h, header_enc := e, header_sym := hs, header_samples := hx,
                    payload := take (unat (payload_len (props fg))) payload_in,
                    payload_sym := ps, payload_samples := px\<rparr>,
                 (frame_len fg,
                  map (\<lambda>k. ramp_up_sample (props fg) (of_nat k) (of_nat k))
                      [0..<unat (rampup_len (props fg))]
                  @ map (\<lambda>k. phasing_sample (rampup_len (props fg) + of_nat k))
                      [0..<unat (phasing_len (props fg))]
                  @ pn_sequence fg @ hx @ px
                  @ map (\<lambda>k. ramp_dn_sample (props fg) (of_nat k))
                      [0..<unat (rampdn_len (props fg))])) \<and>
     length h = 15 \<and> length e = 32 \<and> length hs = 256 \<and> length hx = 256 \<and>
     length ps = unat (num_payload_symbols fg) \<and> length px = unat (num_payload_symbols fg)"
proof -
  note l = configured_lengths [OF assms(1)]
  let ?p = "props fg"
  let ?y1 = "map (\<lambda>k. ramp_up_sample ?p (of_nat k) (of_nat k)) [0..<unat (rampup_len ?p)]"
  let ?y2 = "map (\<lambda>k. phasing_sample (rampup_len ?p + of_nat k)) [0..<unat (phasing_len ?p)]"
  let ?y6 = "map (\<lambda>k. ramp_dn_sample ?p (of_nat k)) [0..<unat (rampdn_len ?p)]"
  let ?n3 = "rampup_len ?p + phasing_len ?p + 64"
  let ?f3 = "(?n3, ?y1 @ ?y2 @ pn_sequence fg)"
  have pre: "for_loop 0 64 (write_pn_sequence fg)
      (for_loop 0 (phasing_len ?p) write_phasing
        (for_loop 0 (rampup_len ?p) (write_ramp_up ?p) (0, []))) = ?f3"
    by (simp add: frame_loops pn_sequence_segment' [OF l(5)])
  obtain h e hs hx where hd: "copy_and_encode_header L header_in (fg, ?f3)
       = Return (fg\<lparr>header := h, header_enc := e, header_sym := hs, header_samples := hx\<rparr>,
                 (?n3 + 256, (?y1 @ ?y2 @ pn_sequence fg) @ hx))"
    and lh: "length h = 15" "length e = 32" "length hs = 256" "length hx = 256"
    using copy_and_encode_header_result [OF assms(1,2), of ?n3 "?y1 @ ?y2 @ pn_sequence fg"]
    by blast
  let ?fg1 = "fg\<lparr>header := h, header_enc := e, header_sym := hs, header_samples := hx\<rparr>"
  have c1: "configured L ?fg1" by (rule configured_header_update [OF assms(1) lh])
  let ?pl = "take (unat (payload_len ?p)) payload_in"
  have lpl: "length ?pl = unat (payload_len (props ?fg1))" using assms(3) by simp
  have b: "unat (payload_len (props ?fg1)) \<le> unat (num_payload_symbols ?fg1)"
    using assms(4) by simp
  obtain ps px where st: "state_of (flexframegen_modulate_payload L (?fg1\<lparr>payload := ?pl\<rparr>))
       = ?fg1\<lparr>payload := ?pl, payload_sym := ps, payload_samples := px\<rparr>"
    and lp: "length ps = unat (num_payload_symbols fg)" "length px = unat (num_payload_symbols fg)"
    using modulate_payload_state [OF c1 lpl b] by auto
  let ?fg2 = "?fg1\<lparr>payload := ?pl, payload_sym := ps, payload_samples := px\<rparr>"
  let ?f5 = "(?n3 + 256 + num_payload_symbols fg, ((?y1 @ ?y2 @ pn_sequence fg) @ hx) @ px)"
  have pd: "copy_and_encode_payload L payload_in (?fg1, (?n3 + 256, (?y1 @ ?y2 @ pn_sequence fg) @ hx))
      = Return (?fg2, ?f5)"
    using assms(3,4) st by (simp add: copy_and_encode_payload_result [OF c1] Let_def)
  have g: "frame_len fg = rampup_len ?p + phasing_len ?p + 64 + 256 + num_payload_symbols fg + rampdn_len ?p"
    by (rule configured_geometry(1) [OF assms(1)])
  have rd: "ramp_down_and_check (?fg2, ?f5)
      = Return (?fg2, (frame_len fg, ?y1 @ ?y2 @ pn_sequence fg @ hx @ px @ ?y6))"
    by (simp add: ramp_down_and_check_def frame_loops Let_def g)
  have "flexframegen_execute L fg header_in payload_in
      = Return (?fg2, (frame_len fg, ?y1 @ ?y2 @ pn_sequence fg @ hx @ px @ ?y6))"
    unfolding flexframegen_execute_def Let_def pre by (simp only: hd pd rd bind_result.simps)
  then show ?thesis using lh lp by (intro exI conjI) simp_all
qed

lemma execute_halts:
  assumes "configured L fg"
    and "\<not> (8 \<le> length header_in \<and> unat (payload_len (props fg)) \<le> length payload_in \<and>
            unat (payload_len (props fg)) \<le> unat (num_payload_symbols fg))"
  shows "\<exists>s. flexframegen_execute L fg header_in payload_in = Halt Out_of_bounds s"
proof (cases "8 \<le> length header_in")
  case h: True
  let ?p = "props fg"
  obtain f3 where pre: "for_loop 0 64 (write_pn_sequence fg)
      (for_loop 0 (phasing_len ?p) write_phasing
        (for_loop 0 (rampup_len ?p) (write_ramp_up ?p) (0, []))) = f3"
    by simp
  obtain n3 y3 where f3: "f3 = (n3, y3)" by (cases f3)
  obtain h' e hs hx where hd: "copy_and_encode_header L header_in (fg, (n3, y3))
       = Return (fg\<lparr>header := h', header_enc := e, header_sym := hs, header_samples := hx\<rparr>,
                 (n3 + 256, y3 @ hx))"
    and lh: "length h' = 15" "length e = 32" "length hs = 256" "length hx = 256"
    using copy_and_encode_header_result [OF assms(1) h, of n3 y3] by blast
  let ?fg1 = "fg\<lparr>header := h', header_enc := e, header_sym := hs, header_samples := hx\<rparr>"
  have c1: "configured L ?fg1" by (rule configured_header_update [OF assms(1) lh])
  have "\<exists>s. copy_and_encode_payload L payload_in (?fg1, (n3 + 256, y3 @ hx)) = Halt Out_of_bounds s"
    using assms(2) h by (auto simp: copy_and_encode_payload_result [OF c1])
  then obtain s where "copy_and_encode_payload L payload_in (?fg1, (n3 + 256, y3 @ hx))
        = Halt Out_of_bounds s" by blast
  then have "flexframegen_execute L fg header_in payload_in = Halt Out_of_bounds s"
    unfolding flexframegen_execute_def Let_def pre f3 by (simp only: hd bind_result.simps)
  then show ?thesis by blast
next
  case False
  show ?thesis
    unfolding flexframegen_execute_def Let_def
    by (simp add: copy_and_encode_header_fault [OF assms(1) False])
qed

text \<open>
  \<open>flexframegen_execute\<close> returns or stops at an access outside a buffer: the assertion at
  its end holds whenever it is reached.
\<close>

lemma execute_faults:
  assumes "configured L fg"
  shows "returns (flexframegen_execute L fg header_in payload_in) \<or>
     (\<exists>s. flexframegen_execute L fg header_in payload_in = Halt Out_of_bounds s)"
proof (cases "8 \<le> length header_in \<and> unat (payload_len (props fg)) \<le> length payload_in \<and>
              unat (payload_len (props fg)) \<le> unat (num_payload_symbols fg)")
  case True
  then show ?thesis using execute_result [OF assms, of header_in payload_in] by auto
next
  case False
  then show ?thesis using execute_halts [OF assms] by blast
qed

lemma sum6_mod:
  "(a + b + 64 + 256 + c + d) mod 4294967296
     = unat (of_nat a + of_nat b + 64 + 256 + of_nat c + of_nat d :: uint)"
proof -
  have "of_nat a + of_nat b + 64 + 256 + of_nat c + of_nat d = (of_nat (a + b + 64 + 256 + c + d) :: uint)"
    by simp
  then show ?thesis by (simp only: unat_of_nat) simp
qed

lemma symbols_ge_payload:
  assumes "configured L fg" "unat (mod_bps (props fg)) \<le> 8"
    "8 * unat (payload_len (props fg)) < 2147483648"
  shows "unat (payload_len (props fg)) \<le> unat (num_payload_symbols fg)"
proof -
  let ?p = "props fg"
  have nz: "mod_bps ?p \<noteq> 0" by (rule configured_geometry(3) [OF assms(1)])
  then have b0: "0 < unat (mod_bps ?p)" by (simp add: unat_gt_0)
  have b: "unat (mod_bps ?p) < 2147483648" using assms(2) by simp
  obtain q r where d: "c_div (8 * payload_len ?p) (mod_bps ?p) = Some (q, r)"
    and n: "unat (word_of_int (q + (if r \<noteq> 0 then 1 else 0)) :: uint) = spec_num_payload_symbols ?p"
    using symbols_in_range [OF nz assms(3) b] by blast
  have "unat (num_payload_symbols fg) = spec_num_payload_symbols ?p"
    using configured_geometry(2) [OF assms(1)] d n by auto
  also have "\<dots> = (8 * unat (payload_len ?p)) div unat (mod_bps ?p)
      + (if (8 * unat (payload_len ?p)) mod unat (mod_bps ?p) \<noteq> 0 then 1 else 0)"
    unfolding spec_num_payload_symbols_def by (rule ceiling_div [OF b0])
  finally have e: "unat (num_payload_symbols fg) \<ge> (8 * unat (payload_len ?p)) div unat (mod_bps ?p)"
    by simp
  have "(8 * unat (payload_len ?p)) div 8 \<le> (8 * unat (payload_len ?p)) div unat (mod_bps ?p)"
    by (rule div_le_mono2 [OF b0 assms(2)])
  then show ?thesis using e by simp
qed

lemma execute_length:
  assumes "configured L fg" "8 \<le> length header_in"
    "unat (payload_len (props fg)) \<le> length payload_in"
    "unat (payload_len (props fg)) \<le> unat (num_payload_symbols fg)"
  shows "returns (flexframegen_execute L fg header_in payload_in)"
    and "length (snd (snd (state_of (flexframegen_execute L fg header_in payload_in))))
      = unat (rampup_len (props fg)) + unat (phasing_len (props fg)) + 64 + 256
        + unat (num_payload_symbols fg) + unat (rampdn_len (props fg))"
    and "unat (rampdn_len (props fg)) \<noteq> 0 \<Longrightarrow>
      last (snd (snd (state_of (flexframegen_execute L fg header_in payload_in))))
      = ramp_dn_sample (props fg) (rampdn_len (props fg) - 1)"
proof -
  let ?p = "props fg"
  obtain h e hs hx ps px where
    r: "flexframegen_execute L fg header_in payload_in
       = Return (fg\<lparr>header := h, header_enc := e, header_sym := hs, header_samples := hx,
                    payload := take (unat (payload_len ?p)) payload_in,
                    payload_sym := ps, payload_samples := px\<rparr>,
                 (frame_len fg,
                  map (\<lambda>k. ramp_up_sample ?p (of_nat k) (of_nat k)) [0..<unat (rampup_len ?p)]
                  @ map (\<lambda>k. phasing_sample (rampup_len ?p + of_nat k)) [0..<unat (phasing_len ?p)]
                  @ pn_sequence fg @ hx @ px
                  @ map (\<lambda>k. ramp_dn_sample ?p (of_nat k)) [0..<unat (rampdn_len ?p)]))"
    and lx: "length hx = 256" and lp: "length px = unat (num_payload_symbols fg)"
    using execute_result [OF assms] by blast
  have l64: "length (pn_sequence fg) = 64" by (rule configured_lengths(5) [OF assms(1)])
  show "returns (flexframegen_execute L fg header_in payload_in)" by (simp add: r)
  show "length (snd (snd (state_of (flexframegen_execute L fg header_in payload_in))))
      = unat (rampup_len ?p) + unat (phasing_len ?p) + 64 + 256
        + unat (num_payload_symbols fg) + unat (rampdn_len ?p)"
    by (simp add: r l64 lx lp)
  assume nz: "unat (rampdn_len ?p) \<noteq> 0"
  then obtain j where j: "unat (rampdn_len ?p) = Suc j" by (cases "unat (rampdn_len ?p)") auto
  have "(of_nat j :: uint) = rampdn_len ?p - 1"
  proof -
    have "rampdn_len ?p = of_nat (unat (rampdn_len ?p))" by simp
    then have "rampdn_len ?p = of_nat (Suc j)" by (simp only: j)
    then show ?thesis by simp
  qed
  then show "last (snd (snd (state_of (flexframegen_execute L fg header_in payload_in))))
      = ramp_dn_sample ?p (rampdn_len ?p - 1)"
    by (simp add: r j)
qed

subsection \<open>The clear of the symbol buffer\<close>

lemma create_payload_sym:
  assumes "flexframegen_create L props_in = Return fg"
  shows "payload_sym fg = replicate (unat (num_payload_symbols fg)) (uninit_uchar L)"
proof -
  let ?p = "case props_in of Some p \<Rightarrow> p | None \<Rightarrow> flexframegenprops_default L"
  let ?o = "(create_object L)\<lparr>props := ?p, mod_payload := Modem_create (mod_scheme ?p) (mod_bps ?p)\<rparr>"
  have sp: "flexframegen_setprops L (create_object L) ?p = Return fg"
    using assms by (simp add: create_eq)
  then have "mod_bps ?p \<noteq> 0" by (rule setprops_Return(1))
  then have c: "flexframegen_configure_payload_buffers L ?o = Return fg"
    using sp by (simp add: setprops_eq)
  obtain s where s: "flexframegen_compute_frame_len ?o = Return s"
    and fg: "fg = configure_payload_samples L (configure_payload_sym L (configure_payload L s))"
    using c by (auto simp: configure_eq split: result.splits)
  note f = compute_frame_len_fields [OF s]
  have o: "payload_sym (create_object L) = [uninit_uchar L]" "payload_sym_numalloc (create_object L) = 1"
    by (simp_all add: create_object_def Let_def)
  have "payload_sym fg = payload_sym (configure_payload_sym L (configure_payload L s))"
    by (simp add: fg)
  also have "\<dots> = replicate (unat (num_payload_symbols s)) (uninit_uchar L)"
  proof (cases "num_payload_symbols s = 1")
    case True
    then show ?thesis by (simp add: configure_payload_sym_def configure_payload_def f o)
  next
    case False
    have "realloc (uninit_uchar L) [uninit_uchar L] (num_payload_symbols s)
        = replicate (unat (num_payload_symbols s)) (uninit_uchar L)"
      by (cases "unat (num_payload_symbols s)") (simp_all add: realloc_def)
    then show ?thesis using False
      by (simp add: configure_payload_sym_def configure_payload_def f o)
  qed
  finally show ?thesis by (simp add: fg)
qed

section \<open>The claims\<close>

text \<open>
  C1 (amended). For a configuration with a positive modulation depth whose values stay in
  range (\<open>8 \<times> payload_len\<close> and the depth below \<open>2^31\<close>, the frame length below
  \<open>2^32\<close>), the generator made by \<open>flexframegen_create\<close>, and every generator after
  \<open>flexframegen_setprops\<close>, has \<open>ceil(8 \<times> payload_len / mod_bps)\<close> payload symbols and the
  frame length \<open>rampup_len + phasing_len + 64 + 256 + num_payload_symbols + rampdn_len\<close>.
\<close>

theorem frame_length_formula:
  assumes "mod_bps p \<noteq> 0"
    and "8 * unat (payload_len p) < 2 ^ 31"
    and "unat (mod_bps p) < 2 ^ 31"
    and "spec_frame_length p < 2 ^ 32"
  shows "(\<forall>props_in. p = (case props_in of Some p' \<Rightarrow> p' | None \<Rightarrow> flexframegenprops_default L) \<longrightarrow>
           (\<exists>fg. flexframegen_create L props_in = Return fg \<and>
              unat (num_payload_symbols fg) = spec_num_payload_symbols p \<and>
              unat (flexframegen_getframelen fg) = spec_frame_length p)) \<and>
         (\<forall>fg0. initialised L fg0 \<longrightarrow>
           (\<exists>fg. flexframegen_setprops L fg0 p = Return fg \<and>
              unat (num_payload_symbols fg) = spec_num_payload_symbols p \<and>
              unat (flexframegen_getframelen fg) = spec_frame_length p))"
proof -
  have a2: "8 * unat (payload_len p) < 2147483648" and a3: "unat (mod_bps p) < 2147483648"
    and a4: "spec_frame_length p < 4294967296"
    using assms(2-4) by simp_all
  obtain q r where d: "c_div (8 * payload_len p) (mod_bps p) = Some (q, r)"
    and n: "unat (word_of_int (q + (if r \<noteq> 0 then 1 else 0)) :: uint) = spec_num_payload_symbols p"
    using symbols_in_range [OF assms(1) a2 a3] by blast
  have g: "unat (num_payload_symbols fg) = spec_num_payload_symbols p \<and>
           unat (flexframegen_getframelen fg) = spec_frame_length p"
    if "num_payload_symbols fg = word_of_int (q + (if r \<noteq> 0 then 1 else 0))"
      and "frame_len fg = rampup_len p + phasing_len p + 64 + 256 + num_payload_symbols fg + rampdn_len p"
    for fg
  proof -
    have s: "unat (num_payload_symbols fg) = spec_num_payload_symbols p" using that(1) n by simp
    have "unat (rampup_len p) + unat (phasing_len p) + 64 + 256 + unat (num_payload_symbols fg)
        + unat (rampdn_len p) < 4294967296"
      using a4 s by (simp add: spec_frame_length_def)
    then have "unat (frame_len fg) = spec_frame_length p"
      using s by (simp only: that(2) unat_sum6 spec_frame_length_def)
    then show ?thesis using s by (simp add: flexframegen_getframelen_def)
  qed
  show ?thesis
  proof (intro conjI allI impI)
    fix props_in
    assume "p = (case props_in of Some p' \<Rightarrow> p' | None \<Rightarrow> flexframegenprops_default L)"
    from create_geometry [OF assms(1) d this] g
    show "\<exists>fg. flexframegen_create L props_in = Return fg \<and>
              unat (num_payload_symbols fg) = spec_num_payload_symbols p \<and>
              unat (flexframegen_getframelen fg) = spec_frame_length p"
      by blast
  next
    fix fg0
    assume "initialised L fg0"
    from setprops_geometry [OF assms(1) d this] g
    show "\<exists>fg. flexframegen_setprops L fg0 p = Return fg \<and>
              unat (num_payload_symbols fg) = spec_num_payload_symbols p \<and>
              unat (flexframegen_getframelen fg) = spec_frame_length p"
      by blast
  qed
qed

theorem frame_length_formula_witness:
  "(\<exists>fg. flexframegen_create example_liquid None = Return fg \<and>
      unat (flexframegen_getframelen fg) = 368) \<and>
   (\<exists>fg. flexframegen_create example_liquid
           (Some \<lparr>rampup_len = 16, phasing_len = 16, payload_len = 10,
                  mod_scheme = 2, mod_bps = 2, rampdn_len = 16\<rparr>) = Return fg \<and>
      unat (num_payload_symbols fg) = 40 \<and> unat (flexframegen_getframelen fg) = 408)"
proof -
  let ?d = "flexframegenprops_default example_liquid"
  let ?p = "\<lparr>rampup_len = 16, phasing_len = 16, payload_len = 10,
             mod_scheme = 2, mod_bps = 2, rampdn_len = 16\<rparr> :: flexframegenprops_s"
  have nd: "spec_num_payload_symbols ?d = 0"
    by (simp add: spec_num_payload_symbols_def flexframegenprops_default_def)
  have fd: "spec_frame_length ?d = 368"
    by (simp add: spec_frame_length_def nd) (simp add: flexframegenprops_default_def)
  have np: "spec_num_payload_symbols ?p = 40"
    by (simp add: spec_num_payload_symbols_def)
  have fp: "spec_frame_length ?p = 408"
    by (simp add: spec_frame_length_def np)
  have d: "\<exists>fg. flexframegen_create example_liquid None = Return fg \<and>
      unat (num_payload_symbols fg) = spec_num_payload_symbols ?d \<and>
      unat (flexframegen_getframelen fg) = spec_frame_length ?d"
    using frame_length_formula [of ?d example_liquid, THEN conjunct1, THEN spec, of None]
    by (simp add: fd) (simp add: flexframegenprops_default_def)
  have p: "\<exists>fg. flexframegen_create example_liquid (Some ?p) = Return fg \<and>
      unat (num_payload_symbols fg) = spec_num_payload_symbols ?p \<and>
      unat (flexframegen_getframelen fg) = spec_frame_length ?p"
    using frame_length_formula [of ?p example_liquid, THEN conjunct1, THEN spec, of "Some ?p"]
    by (simp add: fp)
  show ?thesis using d p by (simp only: fd np fp) blast
qed

theorem frame_length_counterexample:
  "returns (flexframegen_create example_liquid
      (Some \<lparr>rampup_len = 16, phasing_len = 16, payload_len = 268435456,
             mod_scheme = 2, mod_bps = 3, rampdn_len = 16\<rparr>)) \<and>
   unat (num_payload_symbols (state_of (flexframegen_create example_liquid
      (Some \<lparr>rampup_len = 16, phasing_len = 16, payload_len = 268435456,
             mod_scheme = 2, mod_bps = 3, rampdn_len = 16\<rparr>)))) = 3579139415 \<and>
   spec_num_payload_symbols \<lparr>rampup_len = 16, phasing_len = 16, payload_len = 268435456,
             mod_scheme = 2, mod_bps = 3, rampdn_len = 16\<rparr> = 715827883 \<and>
   unat (num_payload_symbols (state_of (flexframegen_create example_liquid
      (Some \<lparr>rampup_len = 16, phasing_len = 16, payload_len = 268435456,
             mod_scheme = 2, mod_bps = 3, rampdn_len = 16\<rparr>))))
     \<noteq> spec_num_payload_symbols \<lparr>rampup_len = 16, phasing_len = 16, payload_len = 268435456,
             mod_scheme = 2, mod_bps = 3, rampdn_len = 16\<rparr> \<and>
   returns (flexframegen_create example_liquid
      (Some \<lparr>rampup_len = 4294967295, phasing_len = 16, payload_len = 0,
             mod_scheme = 2, mod_bps = 1, rampdn_len = 16\<rparr>)) \<and>
   unat (flexframegen_getframelen (state_of (flexframegen_create example_liquid
      (Some \<lparr>rampup_len = 4294967295, phasing_len = 16, payload_len = 0,
             mod_scheme = 2, mod_bps = 1, rampdn_len = 16\<rparr>)))) = 351 \<and>
   spec_frame_length \<lparr>rampup_len = 4294967295, phasing_len = 16, payload_len = 0,
             mod_scheme = 2, mod_bps = 1, rampdn_len = 16\<rparr> = 4294967647 \<and>
   unat (flexframegen_getframelen (state_of (flexframegen_create example_liquid
      (Some \<lparr>rampup_len = 4294967295, phasing_len = 16, payload_len = 0,
             mod_scheme = 2, mod_bps = 1, rampdn_len = 16\<rparr>))))
     \<noteq> spec_frame_length \<lparr>rampup_len = 4294967295, phasing_len = 16, payload_len = 0,
             mod_scheme = 2, mod_bps = 1, rampdn_len = 16\<rparr>"
proof -
  let ?p = "\<lparr>rampup_len = 16, phasing_len = 16, payload_len = 268435456,
             mod_scheme = 2, mod_bps = 3, rampdn_len = 16\<rparr> :: flexframegenprops_s"
  let ?q = "\<lparr>rampup_len = 4294967295, phasing_len = 16, payload_len = 0,
             mod_scheme = 2, mod_bps = 1, rampdn_len = 16\<rparr> :: flexframegenprops_s"
  have dp: "c_div (8 * payload_len ?p) (mod_bps ?p) = Some (- 715827882, - 2)"
    by (simp add: c_div_def)
  have dq: "c_div (8 * payload_len ?q) (mod_bps ?q) = Some (0, 0)"
    by (simp add: c_div_def)
  have 1: "returns (flexframegen_create example_liquid (Some ?p))"
    by (rule create_state(1) [OF _ dp]) simp
  have 2: "unat (num_payload_symbols (state_of (flexframegen_create example_liquid (Some ?p))))
      = 3579139415"
    by (subst create_state(2) [OF _ dp]) simp_all
  have 3: "spec_num_payload_symbols ?p = 715827883"
    using ceiling_div [of 3 2147483648] by (simp add: spec_num_payload_symbols_def)
  have 4: "returns (flexframegen_create example_liquid (Some ?q))"
    by (rule create_state(1) [OF _ dq]) simp
  have 5: "unat (flexframegen_getframelen (state_of (flexframegen_create example_liquid (Some ?q))))
      = 351"
    unfolding flexframegen_getframelen_def by (subst create_state(3) [OF _ dq]) simp_all
  have 6: "spec_frame_length ?q = 4294967647"
    by (simp add: spec_frame_length_def spec_num_payload_symbols_def)
  have 7: "unat (num_payload_symbols (state_of (flexframegen_create example_liquid (Some ?p))))
      \<noteq> spec_num_payload_symbols ?p"
    by (simp only: 2 3)
  have 8: "unat (flexframegen_getframelen (state_of (flexframegen_create example_liquid (Some ?q))))
      \<noteq> spec_frame_length ?q"
    by (simp only: 5 6)
  show ?thesis using 1 2 3 4 5 6 7 8 by (intro conjI)
qed

text \<open>
  C2 (amended). On a configured generator the assertion \<open>n == frame_len\<close> never fails.
  With an 8-byte header and \<open>payload_len\<close> payload bytes, and when the payload length does
  not exceed the number of payload symbols (so that the clear of the symbol buffer stays
  inside it; depths up to 8 in range do), \<open>flexframegen_execute\<close> returns the six segments
  in order: the ramp up, the phasing pattern, the 64 samples of the p/n sequence, the 256
  header samples, the \<open>num_payload_symbols\<close> payload samples and the ramp down. The number
  of samples written is the frame length modulo \<open>2^32\<close>, and the frame length itself when
  the six lengths sum to less than \<open>2^32\<close>.
\<close>

theorem execute_writes_frame:
  assumes "configured L fg"
  shows "(\<forall>s. flexframegen_execute L fg header_in payload_in \<noteq> Halt Assert_failed s) \<and>
         (unat (mod_bps (props fg)) \<le> 8 \<and> 8 * unat (payload_len (props fg)) < 2 ^ 31 \<longrightarrow>
            unat (payload_len (props fg)) \<le> unat (num_payload_symbols fg)) \<and>
         (8 \<le> length header_in \<and> unat (payload_len (props fg)) \<le> length payload_in \<and>
          unat (payload_len (props fg)) \<le> unat (num_payload_symbols fg) \<longrightarrow>
            (\<exists>fg' y. flexframegen_execute L fg header_in payload_in
                        = Return (fg', (flexframegen_getframelen fg, y)) \<and>
               y = map (\<lambda>k. ramp_up_sample (props fg) (of_nat k) (of_nat k))
                       [0..<unat (rampup_len (props fg))]
                   @ map (\<lambda>k. phasing_sample (rampup_len (props fg) + of_nat k))
                       [0..<unat (phasing_len (props fg))]
                   @ pn_sequence fg @ header_samples fg' @ payload_samples fg'
                   @ map (\<lambda>k. ramp_dn_sample (props fg) (of_nat k))
                       [0..<unat (rampdn_len (props fg))] \<and>
               length (pn_sequence fg) = 64 \<and> length (header_samples fg') = 256 \<and>
               length (payload_samples fg') = unat (num_payload_symbols fg) \<and>
               configured L fg' \<and>
               length y mod 2 ^ 32 = unat (flexframegen_getframelen fg) \<and>
               (unat (rampup_len (props fg)) + unat (phasing_len (props fg)) + 64 + 256
                  + unat (num_payload_symbols fg) + unat (rampdn_len (props fg)) < 2 ^ 32 \<longrightarrow>
                length y = unat (flexframegen_getframelen fg))))"
proof (intro conjI allI impI)
  fix s
  show "flexframegen_execute L fg header_in payload_in \<noteq> Halt Assert_failed s"
    using execute_faults [OF assms, of header_in payload_in]
    by (cases "flexframegen_execute L fg header_in payload_in") auto
next
  assume "unat (mod_bps (props fg)) \<le> 8 \<and> 8 * unat (payload_len (props fg)) < 2 ^ 31"
  then show "unat (payload_len (props fg)) \<le> unat (num_payload_symbols fg)"
    using symbols_ge_payload [OF assms] by simp
next
  assume a: "8 \<le> length header_in \<and> unat (payload_len (props fg)) \<le> length payload_in \<and>
          unat (payload_len (props fg)) \<le> unat (num_payload_symbols fg)"
  let ?p = "props fg"
  let ?y1 = "map (\<lambda>k. ramp_up_sample ?p (of_nat k) (of_nat k)) [0..<unat (rampup_len ?p)]"
  let ?y2 = "map (\<lambda>k. phasing_sample (rampup_len ?p + of_nat k)) [0..<unat (phasing_len ?p)]"
  let ?y6 = "map (\<lambda>k. ramp_dn_sample ?p (of_nat k)) [0..<unat (rampdn_len ?p)]"
  from a have a1: "8 \<le> length header_in" and a2: "unat (payload_len ?p) \<le> length payload_in"
    and a3: "unat (payload_len ?p) \<le> unat (num_payload_symbols fg)" by simp_all
  obtain h e hs hx ps px where
    r: "flexframegen_execute L fg header_in payload_in
       = Return (fg\<lparr>header := h, header_enc := e, header_sym := hs, header_samples := hx,
                    payload := take (unat (payload_len ?p)) payload_in,
                    payload_sym := ps, payload_samples := px\<rparr>,
                 (frame_len fg, ?y1 @ ?y2 @ pn_sequence fg @ hx @ px @ ?y6))"
    and lh: "length h = 15" "length e = 32" "length hs = 256"
    and lx: "length hx = 256" and lp: "length px = unat (num_payload_symbols fg)"
    and ls: "length ps = unat (num_payload_symbols fg)"
    using execute_result [OF assms a1 a2 a3] by blast
  let ?fg' = "fg\<lparr>header := h, header_enc := e, header_sym := hs, header_samples := hx,
                    payload := take (unat (payload_len ?p)) payload_in,
                    payload_sym := ps, payload_samples := px\<rparr>"
  let ?y = "?y1 @ ?y2 @ pn_sequence fg @ hx @ px @ ?y6"
  have l64: "length (pn_sequence fg) = 64" by (rule configured_lengths(5) [OF assms])
  have c1: "configured L (fg\<lparr>header := h, header_enc := e, header_sym := hs, header_samples := hx\<rparr>)"
    by (rule configured_header_update [OF assms lh lx])
  have "configured L ((fg\<lparr>header := h, header_enc := e, header_sym := hs, header_samples := hx\<rparr>)
      \<lparr>payload := take (unat (payload_len ?p)) payload_in,
       payload_sym := ps, payload_samples := px\<rparr>)"
    by (rule configured_payload_update [OF c1]) (simp_all add: a2 ls lp)
  then have c2: "configured L ?fg'" by simp
  have len: "length ?y = unat (rampup_len ?p) + unat (phasing_len ?p) + 64 + 256
      + unat (num_payload_symbols fg) + unat (rampdn_len ?p)"
    by (simp add: l64 lx lp)
  have g: "frame_len fg = rampup_len ?p + phasing_len ?p + 64 + 256 + num_payload_symbols fg + rampdn_len ?p"
    by (rule configured_geometry(1) [OF assms])
  have m: "length ?y mod 2 ^ 32 = unat (flexframegen_getframelen fg)"
    unfolding len flexframegen_getframelen_def g using sum6_mod by simp
  have ex: "length ?y = unat (flexframegen_getframelen fg)"
    if "unat (rampup_len ?p) + unat (phasing_len ?p) + 64 + 256
      + unat (num_payload_symbols fg) + unat (rampdn_len ?p) < 2 ^ 32"
    using m that unfolding len by simp
  show "\<exists>fg' y. flexframegen_execute L fg header_in payload_in
                        = Return (fg', (flexframegen_getframelen fg, y)) \<and>
               y = map (\<lambda>k. ramp_up_sample (props fg) (of_nat k) (of_nat k))
                       [0..<unat (rampup_len (props fg))]
                   @ map (\<lambda>k. phasing_sample (rampup_len (props fg) + of_nat k))
                       [0..<unat (phasing_len (props fg))]
                   @ pn_sequence fg @ header_samples fg' @ payload_samples fg'
                   @ map (\<lambda>k. ramp_dn_sample (props fg) (of_nat k))
                       [0..<unat (rampdn_len (props fg))] \<and>
               length (pn_sequence fg) = 64 \<and> length (header_samples fg') = 256 \<and>
               length (payload_samples fg') = unat (num_payload_symbols fg) \<and>
               configured L fg' \<and>
               length y mod 2 ^ 32 = unat (flexframegen_getframelen fg) \<and>
               (unat (rampup_len (props fg)) + unat (phasing_len (props fg)) + 64 + 256
                  + unat (num_payload_symbols fg) + unat (rampdn_len (props fg)) < 2 ^ 32 \<longrightarrow>
                length y = unat (flexframegen_getframelen fg))"
    apply (rule exI [of _ ?fg'])
    apply (rule exI [of _ ?y])
    using r l64 lx lp m ex c2
    apply (simp only: flexframegen_getframelen_def)
    apply simp
    done
qed

theorem execute_writes_frame_witness:
  "configured example_liquid (state_of (flexframegen_create example_liquid None)) \<and>
   (\<exists>fg' y. flexframegen_execute example_liquid
       (state_of (flexframegen_create example_liquid None)) [1, 2, 3, 4, 5, 6, 7, 8] []
        = Return (fg', (368, y)) \<and> length y = 368)"
proof -
  let ?fg = "state_of (flexframegen_create example_liquid None)"
  have c: "configured example_liquid ?fg" by (rule create_default_state(2))
  have p: "props ?fg = flexframegenprops_default example_liquid" by (rule create_default_state(3))
  have d: "c_div (8 * payload_len (flexframegenprops_default example_liquid))
      (mod_bps (flexframegenprops_default example_liquid)) = Some (0, 0)"
    by (simp add: flexframegenprops_default_def c_div_def)
  have n: "num_payload_symbols ?fg = 0"
    using configured_geometry(2) [OF c] d by (simp add: p)
  have f: "flexframegen_getframelen ?fg = 368"
    using configured_geometry(1) [OF c]
    by (simp add: flexframegen_getframelen_def n p flexframegenprops_default_def)
  have a: "8 \<le> length [1, 2, 3, 4, 5, 6, 7, 8 :: uchar] \<and>
      unat (payload_len (props ?fg)) \<le> length ([] :: uchar list) \<and>
      unat (payload_len (props ?fg)) \<le> unat (num_payload_symbols ?fg)"
    by (simp add: n p flexframegenprops_default_def)
  have s: "unat (rampup_len (props ?fg)) + unat (phasing_len (props ?fg)) + 64 + 256
      + unat (num_payload_symbols ?fg) + unat (rampdn_len (props ?fg)) < 2 ^ 32"
    by (simp add: n p flexframegenprops_default_def)
  from execute_writes_frame [OF c, of "[1, 2, 3, 4, 5, 6, 7, 8]" "[]"] a s
  obtain fg' y where "flexframegen_execute example_liquid ?fg [1, 2, 3, 4, 5, 6, 7, 8] []
      = Return (fg', (flexframegen_getframelen ?fg, y))"
    and "length y = unat (flexframegen_getframelen ?fg)"
    by blast
  then show ?thesis using c by (simp add: f) 
qed

theorem execute_writes_frame_counterexample:
  "returns (flexframegen_execute example_liquid
      (state_of (flexframegen_create example_liquid
         (Some \<lparr>rampup_len = 4294967295, phasing_len = 16, payload_len = 0,
                mod_scheme = 2, mod_bps = 1, rampdn_len = 16\<rparr>)))
      [1, 2, 3, 4, 5, 6, 7, 8] []) \<and>
   length (snd (snd (state_of (flexframegen_execute example_liquid
      (state_of (flexframegen_create example_liquid
         (Some \<lparr>rampup_len = 4294967295, phasing_len = 16, payload_len = 0,
                mod_scheme = 2, mod_bps = 1, rampdn_len = 16\<rparr>)))
      [1, 2, 3, 4, 5, 6, 7, 8] [])))) = 4294967647 \<and>
   unat (flexframegen_getframelen (state_of (flexframegen_create example_liquid
         (Some \<lparr>rampup_len = 4294967295, phasing_len = 16, payload_len = 0,
                mod_scheme = 2, mod_bps = 1, rampdn_len = 16\<rparr>)))) = 351 \<and>
   \<not> returns (flexframegen_execute example_liquid
      (state_of (flexframegen_create example_liquid
         (Some \<lparr>rampup_len = 16, phasing_len = 16, payload_len = 2,
                mod_scheme = 2, mod_bps = 16, rampdn_len = 16\<rparr>)))
      [1, 2, 3, 4, 5, 6, 7, 8] [9, 10])"
proof -
  let ?p = "\<lparr>rampup_len = 4294967295, phasing_len = 16, payload_len = 0,
             mod_scheme = 2, mod_bps = 1, rampdn_len = 16\<rparr> :: flexframegenprops_s"
  let ?q = "\<lparr>rampup_len = 16, phasing_len = 16, payload_len = 2,
             mod_scheme = 2, mod_bps = 16, rampdn_len = 16\<rparr> :: flexframegenprops_s"
  let ?fp = "state_of (flexframegen_create example_liquid (Some ?p))"
  let ?fq = "state_of (flexframegen_create example_liquid (Some ?q))"
  have dp: "c_div (8 * payload_len ?p) (mod_bps ?p) = Some (0, 0)" by (simp add: c_div_def)
  have dq: "c_div (8 * payload_len ?q) (mod_bps ?q) = Some (1, 0)" by (simp add: c_div_def)
  note sp = create_state [OF _ dp, of example_liquid, simplified]
  note sq = create_state [OF _ dq, of example_liquid, simplified]
  have np: "num_payload_symbols ?fp = 0" and pp: "props ?fp = ?p" and cp: "configured example_liquid ?fp"
    using sp by simp_all
  have nq: "num_payload_symbols ?fq = 1" and pq: "props ?fq = ?q" and cq: "configured example_liquid ?fq"
    using sq by simp_all
  have b: "8 \<le> length [1, 2, 3, 4, 5, 6, 7, 8 :: uchar]"
    "unat (payload_len (props ?fp)) \<le> length ([] :: uchar list)"
    "unat (payload_len (props ?fp)) \<le> unat (num_payload_symbols ?fp)"
    by (simp_all add: pp np)
  note e = execute_length(1,2) [OF cp b]
  have 1: "returns (flexframegen_execute example_liquid ?fp [1, 2, 3, 4, 5, 6, 7, 8] [])"
    by (rule e(1))
  have 2: "length (snd (snd (state_of (flexframegen_execute example_liquid ?fp
      [1, 2, 3, 4, 5, 6, 7, 8] [])))) = 4294967647"
    using e(2) by (simp add: pp np)
  have 3: "unat (flexframegen_getframelen ?fp) = 351"
    using sp(3) by (simp add: flexframegen_getframelen_def)
  have "\<not> (8 \<le> length [1, 2, 3, 4, 5, 6, 7, 8 :: uchar] \<and>
      unat (payload_len (props ?fq)) \<le> length [9, 10 :: uchar] \<and>
      unat (payload_len (props ?fq)) \<le> unat (num_payload_symbols ?fq))"
    by (simp add: pq nq)
  from execute_halts [OF cq this]
  have 4: "\<not> returns (flexframegen_execute example_liquid ?fq [1, 2, 3, 4, 5, 6, 7, 8] [9, 10])"
    by auto
  show ?thesis using 1 2 3 4 by (intro conjI)
qed



text \<open>
  C4. Header modulation unpacks the 32 encoded header bytes into 256 bits, the most
  significant bit of each byte first, and modulates each bit on its own with the header's
  modem, which is the one-bit BPSK modem made at construction: 256 symbols and 256
  samples, whatever scheme and depth the payload is configured with
  (\<open>flexframegen_setprops\<close> leaves the header's modem and the array sizes as they are).
\<close>

theorem modulate_header_bits:
  assumes "initialised L fg"
  shows "length (header_sym (flexframegen_modulate_header L fg)) = 256 \<and>
         (\<forall>k<256. header_sym (flexframegen_modulate_header L fg) ! k
                    = drop_bit (7 - k mod 8) (header_enc fg ! (k div 8)) AND 1) \<and>
         length (header_samples (flexframegen_modulate_header L fg)) = 256 \<and>
         (\<forall>k<256. header_samples (flexframegen_modulate_header L fg) ! k
                    = modem_modulate L (Modem_create (MOD_BPSK L) 1)
                        (header_sym (flexframegen_modulate_header L fg) ! k)) \<and>
         (\<forall>p fg'. flexframegen_setprops L fg p = Return fg' \<longrightarrow> initialised L fg')"
proof -
  have l: "length (header_sym fg) = 256" "length (header_samples fg) = 256"
    and m: "mod_header fg = Modem_create (MOD_BPSK L) 1"
    using assms by (simp_all add: initialised_def)
  obtain hs hx where r: "flexframegen_modulate_header L fg = fg\<lparr>header_sym := hs, header_samples := hx\<rparr>"
    and ls: "length hs = 256" and lx: "length hx = 256"
    and vs: "\<forall>k<256. hs ! k = header_bit (header_enc fg) k"
    and vx: "\<forall>k<256. hx ! k = modem_modulate L (mod_header fg) (header_bit (header_enc fg) k)"
    using modulate_header_result [OF l, of L] by blast
  have s: "\<forall>p fg'. flexframegen_setprops L fg p = Return fg' \<longrightarrow> initialised L fg'"
    using setprops_Return(12) [OF _ assms] by (auto simp: configured_def)
  show ?thesis
    using ls lx vs vx s by (simp add: r m header_bit_def)
qed

theorem modulate_header_bits_witness:
  "initialised example_liquid (state_of (flexframegen_create example_liquid
      (Some \<lparr>rampup_len = 8, phasing_len = 8, payload_len = 4,
             mod_scheme = 5, mod_bps = 4, rampdn_len = 8\<rparr>))) \<and>
   length (header_samples (flexframegen_modulate_header example_liquid
      (state_of (flexframegen_create example_liquid
        (Some \<lparr>rampup_len = 8, phasing_len = 8, payload_len = 4,
               mod_scheme = 5, mod_bps = 4, rampdn_len = 8\<rparr>))))) = 256 \<and>
   header_samples (flexframegen_modulate_header example_liquid
      (state_of (flexframegen_create example_liquid
        (Some \<lparr>rampup_len = 8, phasing_len = 8, payload_len = 4,
               mod_scheme = 5, mod_bps = 4, rampdn_len = 8\<rparr>)))) ! 9
     = modem_modulate example_liquid (Modem_create (MOD_BPSK example_liquid) 1)
         (drop_bit 6 (header_enc (state_of (flexframegen_create example_liquid
            (Some \<lparr>rampup_len = 8, phasing_len = 8, payload_len = 4,
                   mod_scheme = 5, mod_bps = 4, rampdn_len = 8\<rparr>))) ! 1) AND 1)"
proof -
  let ?p = "\<lparr>rampup_len = 8, phasing_len = 8, payload_len = 4,
             mod_scheme = 5, mod_bps = 4, rampdn_len = 8\<rparr> :: flexframegenprops_s"
  let ?fg = "state_of (flexframegen_create example_liquid (Some ?p))"
  have d: "c_div (8 * payload_len ?p) (mod_bps ?p) = Some (8, 0)" by (simp add: c_div_def)
  have nz: "mod_bps ?p \<noteq> 0" by simp
  have i: "initialised example_liquid ?fg"
    using create_state(4) [OF nz d, of example_liquid] by (simp add: configured_def)
  have "(9::nat) < 256" by simp
  with modulate_header_bits [OF i] show ?thesis using i by simp
qed

text \<open>
  C5 (amended). \<open>flexframegen_setprops\<close> with modulation depth 0 prints the configuration
  error message and calls \<open>exit(1)\<close> before anything is changed: the process stops there.
  The call does not return, so no error reaches the caller and nothing that the program
  would do next runs: whatever follows the call, the outcome is that stop. The object at
  that point is the object before the call, with its properties, geometry and buffer
  sizes. Depth 0 is the only input on which \<open>flexframegen_setprops\<close> stops in this way.
\<close>

theorem setprops_zero_depth_exits:
  "((\<exists>s. flexframegen_setprops L fg p = Halt Exit_1 s) \<longleftrightarrow> mod_bps p = 0) \<and>
   (mod_bps p = 0 \<longrightarrow>
      flexframegen_setprops L fg p = Halt Exit_1 fg \<and>
      \<not> returns (flexframegen_setprops L fg p) \<and>
      (\<forall>k. bind_result (flexframegen_setprops L fg p) k = Halt Exit_1 fg) \<and>
      state_of (flexframegen_setprops L fg p) = fg \<and>
      flexframegen_getprops (state_of (flexframegen_setprops L fg p)) = flexframegen_getprops fg \<and>
      flexframegen_getframelen (state_of (flexframegen_setprops L fg p))
        = flexframegen_getframelen fg)"
proof (intro conjI impI)
  show "(\<exists>s. flexframegen_setprops L fg p = Halt Exit_1 s) \<longleftrightarrow> mod_bps p = 0"
    by (auto simp: setprops_eq configure_eq compute_frame_len_eq split: option.splits)
next
  assume z: "mod_bps p = 0"
  then have h: "flexframegen_setprops L fg p = Halt Exit_1 fg"
    by (simp add: flexframegen_setprops_def)
  show "flexframegen_setprops L fg p = Halt Exit_1 fg" by (rule h)
  show "\<not> returns (flexframegen_setprops L fg p)" by (simp add: h)
  show "\<forall>k. bind_result (flexframegen_setprops L fg p) k = Halt Exit_1 fg" by (simp add: h)
  show "state_of (flexframegen_setprops L fg p) = fg" by (simp add: h)
  show "flexframegen_getprops (state_of (flexframegen_setprops L fg p)) = flexframegen_getprops fg"
    by (simp add: h)
  show "flexframegen_getframelen (state_of (flexframegen_setprops L fg p))
        = flexframegen_getframelen fg" by (simp add: h)
qed

theorem setprops_zero_depth_exits_witness:
  "mod_bps \<lparr>rampup_len = 8, phasing_len = 8, payload_len = 4,
            mod_scheme = 2, mod_bps = 0, rampdn_len = 8\<rparr> = 0 \<and>
   flexframegen_setprops example_liquid (state_of (flexframegen_create example_liquid None))
     \<lparr>rampup_len = 8, phasing_len = 8, payload_len = 4,
      mod_scheme = 2, mod_bps = 0, rampdn_len = 8\<rparr>
     = Halt Exit_1 (state_of (flexframegen_create example_liquid None)) \<and>
   (\<forall>k. bind_result
      (flexframegen_setprops example_liquid (state_of (flexframegen_create example_liquid None))
         \<lparr>rampup_len = 8, phasing_len = 8, payload_len = 4,
          mod_scheme = 2, mod_bps = 0, rampdn_len = 8\<rparr>) k
     = Halt Exit_1 (state_of (flexframegen_create example_liquid None))) \<and>
   flexframegen_getframelen (state_of
      (flexframegen_setprops example_liquid (state_of (flexframegen_create example_liquid None))
         \<lparr>rampup_len = 8, phasing_len = 8, payload_len = 4,
          mod_scheme = 2, mod_bps = 0, rampdn_len = 8\<rparr>)) = 368"
proof -
  let ?p = "\<lparr>rampup_len = 8, phasing_len = 8, payload_len = 4,
             mod_scheme = 2, mod_bps = 0, rampdn_len = 8\<rparr> :: flexframegenprops_s"
  let ?fg = "state_of (flexframegen_create example_liquid None)"
  have d: "c_div (8 * payload_len (flexframegenprops_default example_liquid))
             (mod_bps (flexframegenprops_default example_liquid)) = Some (0, 0)"
    by (simp add: flexframegenprops_default_def c_div_def)
  have nz: "mod_bps (flexframegenprops_default example_liquid) \<noteq> 0"
    by (simp add: flexframegenprops_default_def)
  have f: "flexframegen_getframelen ?fg = 368"
    using create_geometry [OF nz d, where props_in = None and L = example_liquid]
    by (auto simp: flexframegen_getframelen_def flexframegenprops_default_def)
  have z: "mod_bps ?p = 0" by simp
  from setprops_zero_depth_exits [where p = ?p and L = example_liquid and fg = ?fg] z f
  show ?thesis by simp
qed

text \<open>
  The claim has the error reach the caller, who keeps the object and reads its frame
  length next. In the source the process has stopped: after the call with depth 0 neither
  the read of the object nor a later call with depth 1, which returns on its own, runs.
\<close>

theorem setprops_zero_depth_counterexample:
  "flexframegen_setprops example_liquid (state_of (flexframegen_create example_liquid None))
     \<lparr>rampup_len = 8, phasing_len = 8, payload_len = 4,
      mod_scheme = 2, mod_bps = 0, rampdn_len = 8\<rparr>
     = Halt Exit_1 (state_of (flexframegen_create example_liquid None)) \<and>
   \<not> returns (bind_result
      (flexframegen_setprops example_liquid (state_of (flexframegen_create example_liquid None))
         \<lparr>rampup_len = 8, phasing_len = 8, payload_len = 4,
          mod_scheme = 2, mod_bps = 0, rampdn_len = 8\<rparr>)
      (\<lambda>fg. Return fg)) \<and>
   returns (flexframegen_setprops example_liquid
      (state_of (flexframegen_create example_liquid None))
      \<lparr>rampup_len = 8, phasing_len = 8, payload_len = 4,
       mod_scheme = 2, mod_bps = 1, rampdn_len = 8\<rparr>) \<and>
   \<not> returns (bind_result
      (flexframegen_setprops example_liquid (state_of (flexframegen_create example_liquid None))
         \<lparr>rampup_len = 8, phasing_len = 8, payload_len = 4,
          mod_scheme = 2, mod_bps = 0, rampdn_len = 8\<rparr>)
      (\<lambda>fg. flexframegen_setprops example_liquid fg
         \<lparr>rampup_len = 8, phasing_len = 8, payload_len = 4,
          mod_scheme = 2, mod_bps = 1, rampdn_len = 8\<rparr>))"
proof -
  let ?fg = "state_of (flexframegen_create example_liquid None)"
  let ?p = "\<lparr>rampup_len = 8, phasing_len = 8, payload_len = 4,
             mod_scheme = 2, mod_bps = 0, rampdn_len = 8\<rparr> :: flexframegenprops_s"
  let ?q = "\<lparr>rampup_len = 8, phasing_len = 8, payload_len = 4,
             mod_scheme = 2, mod_bps = 1, rampdn_len = 8\<rparr> :: flexframegenprops_s"
  have h: "flexframegen_setprops example_liquid ?fg ?p = Halt Exit_1 ?fg"
    by (simp add: setprops_eq)
  have d: "c_div (8 * 4) 1 = Some (32, 0)" by (simp add: c_div_def)
  have r: "returns (flexframegen_setprops example_liquid ?fg ?q)"
    using d by (simp add: setprops_returns)
  show ?thesis using r by (simp add: h)
qed

text \<open>
  C6. The claim gives ramp-down sample \<open>i\<close> the amplitude
  \<open>0.5 \<times> (1 + cos(\<pi> \<times> i / rampdn_len))\<close>. The source divides by \<open>rampup_len\<close>. With a
  ramp up of 1 sample and a ramp down of 2, the last sample of the frame, ramp-down sample
  1, is 0 where the claim's formula gives 1/2.
\<close>

theorem ramp_down_divides_by_rampup_len:
  "last (snd (snd (state_of (flexframegen_execute example_liquid
      (state_of (flexframegen_create example_liquid
         (Some \<lparr>rampup_len = 1, phasing_len = 0, payload_len = 0,
                mod_scheme = 2, mod_bps = 1, rampdn_len = 2\<rparr>)))
      [1, 2, 3, 4, 5, 6, 7, 8] [])))) = Sample 0 \<and>
   ramp_dn_sample \<lparr>rampup_len = 1, phasing_len = 0, payload_len = 0,
                mod_scheme = 2, mod_bps = 1, rampdn_len = 2\<rparr> 1 = Sample 0 \<and>
   Sample (complex_of_real (sign 1 * 0.5 * (1 + cos (pi * real (unat (1 :: uint))
      / real (unat (rampdn_len \<lparr>rampup_len = 1, phasing_len = 0, payload_len = 0,
                mod_scheme = 2, mod_bps = 1, rampdn_len = 2\<rparr>)))))) = Sample (1 / 2)"
proof -
  let ?p = "\<lparr>rampup_len = 1, phasing_len = 0, payload_len = 0,
             mod_scheme = 2, mod_bps = 1, rampdn_len = 2\<rparr> :: flexframegenprops_s"
  let ?fg = "state_of (flexframegen_create example_liquid (Some ?p))"
  have d: "c_div (8 * payload_len ?p) (mod_bps ?p) = Some (0, 0)" by (simp add: c_div_def)
  note s = create_state [OF _ d, of example_liquid, simplified]
  have n: "num_payload_symbols ?fg = 0" and p: "props ?fg = ?p" and c: "configured example_liquid ?fg"
    using s by simp_all
  have b: "8 \<le> length [1, 2, 3, 4, 5, 6, 7, 8 :: uchar]"
    "unat (payload_len (props ?fg)) \<le> length ([] :: uchar list)"
    "unat (payload_len (props ?fg)) \<le> unat (num_payload_symbols ?fg)"
    "unat (rampdn_len (props ?fg)) \<noteq> 0"
    by (simp_all add: p n)
  have r: "ramp_dn_sample ?p 1 = Sample 0"
    by (simp add: ramp_dn_sample_def sign_def)
  have "last (snd (snd (state_of (flexframegen_execute example_liquid ?fg
      [1, 2, 3, 4, 5, 6, 7, 8] [])))) = ramp_dn_sample ?p 1"
    using execute_length(3) [OF c b] by (simp add: p)
  moreover have "Sample (complex_of_real (sign 1 * 0.5 * (1 + cos (pi * real (unat (1 :: uint))
      / real (unat (rampdn_len ?p)))))) = Sample (1 / 2)"
    by (simp add: sign_def)
  ultimately show ?thesis using r by simp
qed

text \<open>
  C7. The claim has the whole symbol buffer, all \<open>num_payload_symbols\<close> entries, cleared
  before the repacking. The source clears \<open>payload_len\<close> entries. With a payload of 1 byte
  at depth 1 the buffer has 8 entries, still as \<open>realloc\<close> left them; the clear zeroes
  entry 0 and leaves entries 1-7 as they were.
\<close>

theorem clear_leaves_stale_symbols:
  "num_payload_symbols (state_of (flexframegen_create example_liquid
      (Some \<lparr>rampup_len = 16, phasing_len = 16, payload_len = 1,
             mod_scheme = 2, mod_bps = 1, rampdn_len = 16\<rparr>))) = 8 \<and>
   payload_sym (state_of (flexframegen_create example_liquid
      (Some \<lparr>rampup_len = 16, phasing_len = 16, payload_len = 1,
             mod_scheme = 2, mod_bps = 1, rampdn_len = 16\<rparr>)))
     = [0xaa, 0xaa, 0xaa, 0xaa, 0xaa, 0xaa, 0xaa, 0xaa] \<and>
   payload_sym (state_of (modulate_payload_clear (state_of (flexframegen_create example_liquid
      (Some \<lparr>rampup_len = 16, phasing_len = 16, payload_len = 1,
             mod_scheme = 2, mod_bps = 1, rampdn_len = 16\<rparr>)))))
     = [0, 0xaa, 0xaa, 0xaa, 0xaa, 0xaa, 0xaa, 0xaa]"
proof -
  let ?p = "\<lparr>rampup_len = 16, phasing_len = 16, payload_len = 1,
             mod_scheme = 2, mod_bps = 1, rampdn_len = 16\<rparr> :: flexframegenprops_s"
  let ?fg = "state_of (flexframegen_create example_liquid (Some ?p))"
  have d: "c_div (8 * payload_len ?p) (mod_bps ?p) = Some (8, 0)" by (simp add: c_div_def)
  note s = create_state [OF _ d, of example_liquid, simplified]
  have n: "num_payload_symbols ?fg = 8" and p: "props ?fg = ?p" using s by simp_all
  have "flexframegen_create example_liquid (Some ?p) = Return ?fg"
    using s(1) by (rule returns_eq)
  from create_payload_sym [OF this]
  have "payload_sym ?fg = replicate (unat (8 :: uint)) (uninit_uchar example_liquid)"
    by (simp only: n)
  moreover have "uninit_uchar example_liquid = 0xaa" by (simp add: example_liquid_def)
  moreover have "replicate (unat (8 :: uint)) (0xaa :: uchar)
      = [0xaa, 0xaa, 0xaa, 0xaa, 0xaa, 0xaa, 0xaa, 0xaa]"
  proof -
    have "unat (8 :: uint) = Suc (Suc (Suc (Suc (Suc (Suc (Suc (Suc 0)))))))" by simp
    then show ?thesis by (simp only: replicate.simps)
  qed
  ultimately have b: "payload_sym ?fg = [0xaa, 0xaa, 0xaa, 0xaa, 0xaa, 0xaa, 0xaa, 0xaa]"
    by (simp only:)
  have "payload_sym (state_of (modulate_payload_clear ?fg)) = [0, 0xaa, 0xaa, 0xaa, 0xaa, 0xaa, 0xaa, 0xaa]"
    by (simp add: modulate_payload_clear_def memset_def b p)
  then show ?thesis using n b by simp
qed

text \<open>
  C8. After \<open>flexframegen_configure_payload_buffers\<close> the recorded size of each of the
  three payload buffers is the size the geometry requires (\<open>payload_len\<close> bytes,
  \<open>num_payload_symbols\<close> symbols, \<open>num_payload_symbols\<close> samples); \<open>realloc\<close> is called
  for a buffer only when its recorded size differs from the required one; and a second
  \<open>flexframegen_setprops\<close> with the same properties reallocates nothing and leaves the
  object as it is.
\<close>

theorem configure_payload_buffers_sizes:
  "(flexframegen_configure_payload_buffers L fg = Return fg' \<longrightarrow>
      payload_numalloc fg' = payload_len (props fg') \<and>
      payload_sym_numalloc fg' = num_payload_symbols fg' \<and>
      payload_samples_numalloc fg' = num_payload_symbols fg' \<and>
      realloc_log fg' = realloc_log fg
        @ (if payload_numalloc fg \<noteq> payload_len (props fg')
           then [(Payload, payload_len (props fg'))] else [])
        @ (if payload_sym_numalloc fg \<noteq> num_payload_symbols fg'
           then [(Payload_sym, num_payload_symbols fg')] else [])
        @ (if payload_samples_numalloc fg \<noteq> num_payload_symbols fg'
           then [(Payload_samples, num_payload_symbols fg')] else [])) \<and>
   (flexframegen_setprops L fg p = Return fg1 \<longrightarrow>
      flexframegen_setprops L fg1 p = Return fg1 \<and>
      realloc_log (state_of (flexframegen_setprops L fg1 p)) = realloc_log fg1)"
proof (intro conjI impI)
  assume c: "flexframegen_configure_payload_buffers L fg = Return fg'"
  note r = configure_Return [OF c]
  show "payload_numalloc fg' = payload_len (props fg')"
    "payload_sym_numalloc fg' = num_payload_symbols fg'"
    "payload_samples_numalloc fg' = num_payload_symbols fg'"
    using r by simp_all
  show "realloc_log fg' = realloc_log fg
        @ (if payload_numalloc fg \<noteq> payload_len (props fg')
           then [(Payload, payload_len (props fg'))] else [])
        @ (if payload_sym_numalloc fg \<noteq> num_payload_symbols fg'
           then [(Payload_sym, num_payload_symbols fg')] else [])
        @ (if payload_samples_numalloc fg \<noteq> num_payload_symbols fg'
           then [(Payload_samples, num_payload_symbols fg')] else [])"
    by (rule configure_log [OF c])
next
  assume s: "flexframegen_setprops L fg p = Return fg1"
  show "flexframegen_setprops L fg1 p = Return fg1" by (rule setprops_twice [OF s])
  then show "realloc_log (state_of (flexframegen_setprops L fg1 p)) = realloc_log fg1" by simp
qed

theorem configure_payload_buffers_sizes_witness:
  "flexframegen_setprops example_liquid (create_object example_liquid)
      \<lparr>rampup_len = 8, phasing_len = 8, payload_len = 4, mod_scheme = 2, mod_bps = 1, rampdn_len = 8\<rparr>
     = Return (state_of (flexframegen_setprops example_liquid (create_object example_liquid)
         \<lparr>rampup_len = 8, phasing_len = 8, payload_len = 4, mod_scheme = 2, mod_bps = 1, rampdn_len = 8\<rparr>)) \<and>
   flexframegen_setprops example_liquid
      (state_of (flexframegen_setprops example_liquid (create_object example_liquid)
         \<lparr>rampup_len = 8, phasing_len = 8, payload_len = 4, mod_scheme = 2, mod_bps = 1, rampdn_len = 8\<rparr>))
      \<lparr>rampup_len = 8, phasing_len = 8, payload_len = 4, mod_scheme = 2, mod_bps = 1, rampdn_len = 8\<rparr>
     = Return (state_of (flexframegen_setprops example_liquid (create_object example_liquid)
         \<lparr>rampup_len = 8, phasing_len = 8, payload_len = 4, mod_scheme = 2, mod_bps = 1, rampdn_len = 8\<rparr>)) \<and>
   realloc_log (state_of (flexframegen_setprops example_liquid (create_object example_liquid)
         \<lparr>rampup_len = 8, phasing_len = 8, payload_len = 4, mod_scheme = 2, mod_bps = 1, rampdn_len = 8\<rparr>))
     = [(Payload, 4), (Payload_sym, 32), (Payload_samples, 32)]"
proof -
  let ?p = "\<lparr>rampup_len = 8, phasing_len = 8, payload_len = 4, mod_scheme = 2, mod_bps = 1,
             rampdn_len = 8\<rparr> :: flexframegenprops_s"
  let ?o = "create_object example_liquid"
  let ?o' = "?o\<lparr>props := ?p, mod_payload := Modem_create (mod_scheme ?p) (mod_bps ?p)\<rparr>"
  let ?fg = "state_of (flexframegen_setprops example_liquid ?o ?p)"
  have d: "c_div (8 * payload_len ?p) (mod_bps ?p) = Some (32, 0)" by (simp add: c_div_def)
  have "returns (flexframegen_setprops example_liquid ?o ?p)"
    using d by (simp add: setprops_returns)
  then have r: "flexframegen_setprops example_liquid ?o ?p = Return ?fg" by (rule returns_eq)
  then have c: "flexframegen_configure_payload_buffers example_liquid ?o' = Return ?fg"
    by (simp add: setprops_eq)
  have n: "num_payload_symbols ?fg = 32" and p: "props ?fg = ?p"
    using setprops_geometry [OF _ d create_object_initialised, of example_liquid] r by auto
  have a: "payload_numalloc ?o = 1" "payload_sym_numalloc ?o = 1" "payload_samples_numalloc ?o = 1"
    "realloc_log ?o = []"
    by (simp_all add: create_object_def Let_def
        for_loop_preserves [where g = realloc_log] generate_pn_sequence_fields)
  from configure_payload_buffers_sizes [of example_liquid ?o' ?fg ?p ?fg]
    configure_payload_buffers_sizes [of example_liquid ?o ?fg ?p ?fg] r c
  show ?thesis by (simp add: n p a)
qed

text \<open>
  C9. The header record holds \<open>payload_len mod 2^16\<close> in bytes 8-9 (big-endian) and
  \<open>mod_scheme mod 16\<close> and \<open>mod_bps mod 16\<close> in the two halves of byte 10, for every
  configuration. No error is raised for a value out of range: \<open>flexframegen_setprops\<close>
  accepts every configuration but those of depth 0 and the one division that has no
  result, whatever the payload length, the scheme and the depth are otherwise, and on a
  configured generator the header is copied, encoded and modulated whenever the caller's
  buffer holds 8 bytes.
\<close>

theorem header_packing_truncates:
  assumes "length (header fg) = 15"
  shows "256 * unat (header (header_compute_crc L (header_add_modulation
                        (header_add_payload_length fg))) ! 8)
           + unat (header (header_compute_crc L (header_add_modulation
                        (header_add_payload_length fg))) ! 9)
           = unat (payload_len (props fg)) mod 2 ^ 16 \<and>
         unat (header (header_compute_crc L (header_add_modulation
                        (header_add_payload_length fg))) ! 10)
           = 16 * (unat (mod_scheme (props fg)) mod 16) + unat (mod_bps (props fg)) mod 16 \<and>
         (returns (flexframegen_setprops L fg p) \<longleftrightarrow>
            mod_bps p \<noteq> 0 \<and> (8 * payload_len p \<noteq> 0x80000000 \<or> mod_bps p \<noteq> 0xffffffff)) \<and>
         (configured L fg \<longrightarrow>
            (returns (copy_and_encode_header L header_in (fg, f)) \<longleftrightarrow> 8 \<le> length header_in))"
proof -
  obtain a0 a1 a2 a3 a4 a5 a6 a7 a8 a9 a10 a11 a12 a13 a14
    where h: "header fg = [a0, a1, a2, a3, a4, a5, a6, a7, a8, a9, a10, a11, a12, a13, a14]"
    using assms by (rule list15)
  have r: "header (header_compute_crc L (header_add_modulation (header_add_payload_length fg)))
      = spec_header_record L (header fg) (props fg)"
    by (rule header_record(1) [OF assms])
  have 8: "spec_header_record L (header fg) (props fg) ! 8 = ucast (drop_bit 8 (payload_len (props fg)))"
    and 9: "spec_header_record L (header fg) (props fg) ! 9 = ucast (payload_len (props fg))"
    and 10: "spec_header_record L (header fg) (props fg) ! 10
       = push_bit 4 (ucast (mod_scheme (props fg))) OR take_bit 4 (ucast (mod_bps (props fg)))"
    by (simp_all add: spec_header_record_def spec_header_prefix_def Let_def h)
  have s: "returns (flexframegen_setprops L fg p) \<longleftrightarrow>
            mod_bps p \<noteq> 0 \<and> (8 * payload_len p \<noteq> 0x80000000 \<or> mod_bps p \<noteq> 0xffffffff)"
    by (auto simp: setprops_returns c_div_None_iff)
  have c: "returns (copy_and_encode_header L header_in (fg, f)) \<longleftrightarrow> 8 \<le> length header_in"
    if "configured L fg"
  proof (cases "8 \<le> length header_in")
    case True
    obtain n y where f: "f = (n, y)" by (cases f)
    show ?thesis using copy_and_encode_header_result [OF that True, of n y] True
      by (auto simp: f)
  next
    case False
    then show ?thesis by (simp add: copy_and_encode_header_fault [OF that False])
  qed
  show ?thesis
    unfolding r 8 9 10 using unat_length_field unat_packed_field s c by simp
qed

theorem header_packing_truncates_witness:
  "length (header (state_of (flexframegen_create example_liquid
      (Some \<lparr>rampup_len = 8, phasing_len = 8, payload_len = 70000,
             mod_scheme = 20, mod_bps = 18, rampdn_len = 8\<rparr>)))) = 15 \<and>
   256 * unat (header (header_compute_crc example_liquid (header_add_modulation
       (header_add_payload_length (state_of (flexframegen_create example_liquid
          (Some \<lparr>rampup_len = 8, phasing_len = 8, payload_len = 70000,
                 mod_scheme = 20, mod_bps = 18, rampdn_len = 8\<rparr>)))))) ! 8)
     + unat (header (header_compute_crc example_liquid (header_add_modulation
       (header_add_payload_length (state_of (flexframegen_create example_liquid
          (Some \<lparr>rampup_len = 8, phasing_len = 8, payload_len = 70000,
                 mod_scheme = 20, mod_bps = 18, rampdn_len = 8\<rparr>)))))) ! 9) = 4464 \<and>
   unat (header (header_compute_crc example_liquid (header_add_modulation
       (header_add_payload_length (state_of (flexframegen_create example_liquid
          (Some \<lparr>rampup_len = 8, phasing_len = 8, payload_len = 70000,
                 mod_scheme = 20, mod_bps = 18, rampdn_len = 8\<rparr>)))))) ! 10) = 66 \<and>
   returns (flexframegen_setprops example_liquid
      (state_of (flexframegen_create example_liquid
          (Some \<lparr>rampup_len = 8, phasing_len = 8, payload_len = 70000,
                 mod_scheme = 20, mod_bps = 18, rampdn_len = 8\<rparr>)))
      \<lparr>rampup_len = 8, phasing_len = 8, payload_len = 70000,
       mod_scheme = 20, mod_bps = 18, rampdn_len = 8\<rparr>)"
proof -
  let ?p = "\<lparr>rampup_len = 8, phasing_len = 8, payload_len = 70000,
             mod_scheme = 20, mod_bps = 18, rampdn_len = 8\<rparr> :: flexframegenprops_s"
  let ?fg = "state_of (flexframegen_create example_liquid (Some ?p))"
  have d: "c_div (8 * payload_len ?p) (mod_bps ?p) = Some (31111, 2)" by (simp add: c_div_def)
  have nz: "mod_bps ?p \<noteq> 0" by simp
  note c = create_state(4,5) [OF nz d, of example_liquid]
  have l: "length (header ?fg) = 15" by (rule configured_lengths(1) [OF c(1)])
  from header_packing_truncates [OF l, of example_liquid ?p]
  show ?thesis using l by (simp add: c(2))
qed

text \<open>
  C10. \<open>flexframegen_execute\<close> reads the first 8 bytes of the caller's header buffer only:
  two header buffers that agree on bytes 0-7 give the same result (the same object, the
  same frame, or the same fault), whatever follows byte 7.
\<close>

theorem execute_reads_eight_header_bytes:
  assumes "take 8 h1 = take 8 h2"
  shows "flexframegen_execute L fg h1 payload_in = flexframegen_execute L fg h2 payload_in"
proof -
  have "length (take 8 h1) = length (take 8 h2)" using assms by simp
  then have "8 \<le> length h1 \<longleftrightarrow> 8 \<le> length h2" by (simp add: min_def split: if_splits)
  then have "memmove dst h1 8 = memmove dst h2 8" for dst :: "uchar list"
    using assms by (simp add: memmove_def)
  then have "copy_and_encode_header L h1 s = copy_and_encode_header L h2 s" for s
    by (simp add: copy_and_encode_header_def)
  then show ?thesis by (simp add: flexframegen_execute_def)
qed

theorem execute_reads_eight_header_bytes_witness:
  "take 8 [1, 2, 3, 4, 5, 6, 7, 8, 0xaa :: uchar] = take 8 [1, 2, 3, 4, 5, 6, 7, 8, 0xbb, 0xcc] \<and>
   flexframegen_execute example_liquid (state_of (flexframegen_create example_liquid None))
       [1, 2, 3, 4, 5, 6, 7, 8, 0xaa] []
     = flexframegen_execute example_liquid (state_of (flexframegen_create example_liquid None))
       [1, 2, 3, 4, 5, 6, 7, 8, 0xbb, 0xcc] []"
proof -
  have t: "take 8 [1, 2, 3, 4, 5, 6, 7, 8, 0xaa :: uchar] = take 8 [1, 2, 3, 4, 5, 6, 7, 8, 0xbb, 0xcc]"
    by simp
  show ?thesis
    using execute_reads_eight_header_bytes [OF t] t by blast
qed

end
